theory Spec2Isabelle
  imports Main "HOL-Library.AList"
begin

section \<open>Python strings\<close>

text \<open>
  A Python \<open>str\<close> is a sequence of Unicode code points; a code point is a natural number.
  \<open>py\<close> turns an ASCII literal of the source into that representation.
\<close>

type_synonym pystr = "nat list"

definition py :: "string \<Rightarrow> pystr" where
  "py s = map of_char s"

text \<open>
  The characters matched by \<open>\s\<close> in a \<open>str\<close> pattern (Unicode white space): the ASCII
  controls 9 to 13 and 28 to 31, the space, U+0085, U+00A0, U+1680, U+2000 to U+200A, U+2028,
  U+2029, U+202F, U+205F and U+3000.
\<close>

definition is_space :: "nat \<Rightarrow> bool" where
  "is_space c = (c \<in> set [9, 10, 11, 12, 13, 28, 29, 30, 31, 32, 133, 160, 5760,
                            8232, 8233, 8239, 8287, 12288] \<or> (8192 \<le> c \<and> c \<le> 8202))"

section \<open>The regular expressions of the server\<close>

text \<open>
  Every pattern of \<open>pygn_server.py\<close> is a sequence of items of these kinds: one character
  of a class, a greedy or a lazy repetition of a character class, a group boundary, and the
  anchors \<open>\A\<close>, \<open>^\<close> (under \<open>re.MULTILINE\<close>) and \<open>\Z\<close>.  \<open>rmatch\<close> is the backtracking
  matcher of \<open>re\<close> restricted to such patterns: alternatives are tried in the order of
  priority of \<open>re\<close> (a greedy repetition takes as many characters as it can first, a lazy one
  as few), and the first success is the match.  \<open>prev\<close> is the character before the current
  position (\<open>None\<close> at the start of the string).  The result lists the rest of the input at each
  group boundary, in pattern order, and at the end of the match.
\<close>

datatype rx = One "nat \<Rightarrow> bool" | Star "nat \<Rightarrow> bool" | Lazy "nat \<Rightarrow> bool"
  | Mark | Bos | Bol | Eos

fun rmatch :: "rx list \<Rightarrow> nat option \<Rightarrow> pystr \<Rightarrow> pystr list option" where
  "rmatch [] prev s = Some [s]"
| "rmatch (Mark # r) prev s = map_option ((#) s) (rmatch r prev s)"
| "rmatch (Bos # r) prev s = (if prev = None then rmatch r prev s else None)"
| "rmatch (Bol # r) prev s =
     (if prev = None \<or> prev = Some 10 then rmatch r prev s else None)"
| "rmatch (Eos # r) prev s = (if s = [] then rmatch r prev s else None)"
| "rmatch (One p # r) prev [] = None"
| "rmatch (One p # r) prev (c # s) = (if p c then rmatch r (Some c) s else None)"
| "rmatch (Star p # r) prev [] = rmatch r prev []"
| "rmatch (Star p # r) prev (c # s) =
     (if p c
      then (case rmatch (Star p # r) (Some c) s of
              Some m \<Rightarrow> Some m
            | None \<Rightarrow> rmatch r prev (c # s))
      else rmatch r prev (c # s))"
| "rmatch (Lazy p # r) prev [] = rmatch r prev []"
| "rmatch (Lazy p # r) prev (c # s) =
     (case rmatch r prev (c # s) of
        Some m \<Rightarrow> Some m
      | None \<Rightarrow> (if p c then rmatch (Lazy p # r) (Some c) s else None))"

text \<open>\<open>pattern.search(s)\<close>: the match at the leftmost position that has one.\<close>

fun re_search :: "rx list \<Rightarrow> nat option \<Rightarrow> pystr \<Rightarrow> pystr list option" where
  "re_search r prev [] = rmatch r prev []"
| "re_search r prev (c # s) =
     (case rmatch r prev (c # s) of
        Some m \<Rightarrow> Some m
      | None \<Rightarrow> re_search r (Some c) s)"

text \<open>\<open>m.group(k)\<close>: the text between the two boundaries of the \<open>k\<close>-th group.\<close>

definition group :: "pystr list \<Rightarrow> nat \<Rightarrow> pystr" where
  "group m k = (let a = m ! (2 * k - 2); b = m ! (2 * k - 1)
                in take (length a - length b) a)"

text \<open>
  \<open>re.sub(pattern, repl, s)\<close>: the non-overlapping matches are replaced from left to right;
  \<open>repl\<close> computes the replacement from the match.  After an empty match the scan copies one
  character and goes on.
\<close>

function re_sub :: "rx list \<Rightarrow> (pystr list \<Rightarrow> pystr) \<Rightarrow> nat option \<Rightarrow> pystr \<Rightarrow> pystr" where
  "re_sub r repl prev s =
     (case rmatch r prev s of
        Some m \<Rightarrow>
          (if length (last m) < length s
           then repl m @
                re_sub r repl (Some (s ! (length s - length (last m) - 1))) (last m)
           else repl m @
                (case s of [] \<Rightarrow> [] | c # s' \<Rightarrow> c # re_sub r repl (Some c) s'))
      | None \<Rightarrow> (case s of [] \<Rightarrow> [] | c # s' \<Rightarrow> c # re_sub r repl (Some c) s'))"
  by pat_completeness auto
termination
  by (relation "measure (\<lambda>(r, repl, prev, s). length s)") auto

declare re_sub.simps [simp del]

text \<open>A pattern without metacharacters: each character stands for itself.\<close>

definition lit :: "pystr \<Rightarrow> rx list" where
  "lit s = map (\<lambda>c. One (\<lambda>x. x = c)) s"

text \<open>The request pattern of \<open>listen\<close>: \<^verbatim>\<open>(:\S+)(.*?)\s+--\s+(:\S+)\s+(\S.*)\n\<close>.\<close>

definition request_re :: "rx list" where
  "request_re =
     [Mark, One (\<lambda>c. c = 58), One (\<lambda>c. \<not> is_space c), Star (\<lambda>c. \<not> is_space c), Mark,
      Mark, Lazy (\<lambda>c. c \<noteq> 10), Mark,
      One is_space, Star is_space,
      One (\<lambda>c. c = 45), One (\<lambda>c. c = 45),
      One is_space, Star is_space,
      Mark, One (\<lambda>c. c = 58), One (\<lambda>c. \<not> is_space c), Star (\<lambda>c. \<not> is_space c), Mark,
      One is_space, Star is_space,
      Mark, One (\<lambda>c. \<not> is_space c), Star (\<lambda>c. c \<noteq> 10), Mark,
      One (\<lambda>c. c = 10)]"

text \<open>The pattern of \<open>pgn_to_mainline_callback\<close>: \<^verbatim>\<open>\s+\S+\Z\<close>.\<close>

definition result_re :: "rx list" where
  "result_re = [One is_space, Star is_space, One (\<lambda>c. \<not> is_space c), Star (\<lambda>c. \<not> is_space c), Eos]"

section \<open>The collaborators\<close>

text \<open>
  The options of a request, as \<open>generate_argparser\<close> declares them.  Every option has
  \<open>nargs=1\<close>, so \<open>argparse\<close> stores a list of one value and the callbacks read its element
  \<open>0\<close>; a field here holds that element.
\<close>

record args =
  pixels :: int
  board_format :: pystr
  engine :: pystr
  depth :: int

datatype argval = IntV int | StrV pystr

datatype argtype = TInt | TStr

record add_argument =
  flags :: "pystr list"
  dest :: pystr
  arg_type :: argtype
  arg_default :: argval

definition generate_argparser :: "add_argument list" where
  "generate_argparser =
     [\<lparr>flags = [py ''-pixels'', py ''--pixels''], dest = py ''pixels'',
       arg_type = TInt, arg_default = IntV 400\<rparr>,
      \<lparr>flags = [py ''-board_format'', py ''--board_format''], dest = py ''board_format'',
       arg_type = TStr, arg_default = StrV (py ''svg'')\<rparr>,
      \<lparr>flags = [py ''-engine'', py ''--engine''], dest = py ''engine'',
       arg_type = TStr, arg_default = StrV (py ''stockfish'')\<rparr>,
      \<lparr>flags = [py ''-depth'', py ''--depth''], dest = py ''depth'',
       arg_type = TInt, arg_default = IntV 20\<rparr>]"

text \<open>
  The code of this repository calls the Python standard library (\<open>shlex\<close>, \<open>argparse\<close>, the
  Unicode tables behind \<open>\d\<close>), the chess library and, through it, engine subprocesses.
  None of them is part of the repository: they are parameters of the model.
  \<^item> \<open>shlex_split\<close> is \<open>shlex.split\<close>; \<open>None\<close> is its \<open>ValueError\<close>.
  \<^item> \<open>parse_args\<close> is \<open>ArgumentParser.parse_args\<close> for the declared options; \<open>Inl (out, err)\<close>
    is an exit of \<open>argparse\<close> (\<open>SystemExit\<close>) after it has printed \<open>out\<close> on the standard output
    and \<open>err\<close> on the standard error.
  \<^item> \<open>read_game\<close> is \<open>chess.pgn.read_game\<close> on the text of the stream.  It returns the
    game, or Python's \<open>None\<close> when the text holds no game; with it come the lines that the
    library has written on the standard error of the process while parsing (it reports there,
    through \<open>logging\<close>, the errors it finds in the text, such as an illegal move).
  \<^item> \<open>game_board\<close> is \<open>game.board()\<close>; \<open>None\<close> is the \<open>ValueError\<close> it raises when the
    headers of the game name a position or a variant that the library refuses.
  \<^item> \<open>mainline_moves\<close>, \<open>board_push\<close>, \<open>board_fen\<close> are the methods
    \<open>game.mainline_moves()\<close>, \<open>board.push(move)\<close>, \<open>board.fen()\<close>;
    \<open>svg_board b lm n\<close> is \<open>chess.svg.board(board=b, lastmove=lm, size=n)\<close>, where the last
    move \<open>None\<close> is the \<open>False\<close> that \<open>listen\<close> passes for a game without moves;
    \<open>board_unicode\<close> is \<open>board.unicode(borders=True)\<close>; \<open>game_accept\<close> is \<open>game.accept\<close> with
    the exporter of \<open>pgn_to_mainline_callback\<close>.
  \<^item> The engine calls act on the world outside the process, of type \<open>'w\<close>: \<open>popen_uci\<close> is
    \<open>SimpleEngine.popen_uci(path, timeout=None)\<close> (\<open>None\<close>: it raised), \<open>engine_ping\<close> is
    \<open>ping()\<close> and \<open>engine_quit\<close> is \<open>quit()\<close> (\<open>False\<close>: it raised), \<open>engine_analyse h b d\<close> is
    \<open>str(h.analyse(b, Limit(depth=d))["score"])\<close> (\<open>None\<close>: it raised).
\<close>

record ('g, 'b, 'm, 'h, 'w) libs =
  unicode_decimal :: "nat \<Rightarrow> bool"
  shlex_split :: "pystr \<Rightarrow> pystr list option"
  parse_args :: "add_argument list \<Rightarrow> pystr list \<Rightarrow> (pystr list \<times> pystr list) + args"
  read_game :: "pystr \<Rightarrow> pystr list \<times> 'g option"
  game_board :: "'g \<Rightarrow> 'b option"
  mainline_moves :: "'g \<Rightarrow> 'm list"
  board_push :: "'b \<Rightarrow> 'm \<Rightarrow> 'b"
  board_fen :: "'b \<Rightarrow> pystr"
  svg_board :: "'b \<Rightarrow> 'm option \<Rightarrow> int \<Rightarrow> pystr"
  board_unicode :: "'b \<Rightarrow> pystr"
  game_accept :: "'g \<Rightarrow> pystr"
  popen_uci :: "pystr \<Rightarrow> 'w \<Rightarrow> 'h option \<times> 'w"
  engine_ping :: "'h \<Rightarrow> 'w \<Rightarrow> bool \<times> 'w"
  engine_analyse :: "'h \<Rightarrow> 'b \<Rightarrow> int \<Rightarrow> 'w \<Rightarrow> pystr option \<times> 'w"
  engine_quit :: "'h \<Rightarrow> 'w \<Rightarrow> bool \<times> 'w"

section \<open>The state of the server process\<close>

text \<open>
  \<open>ENGINES\<close> is the dictionary of the source, in insertion order.  \<open>stdout\<close> and \<open>stderr\<close> hold
  the texts written so far on the two streams: one entry for each call of \<open>print\<close>, which
  writes the entry and a newline after it, and one entry for each line that \<open>argparse\<close> or the
  chess library writes there.  \<open>calls\<close> records the calls made to the engines, in order, with
  their outcome.  \<open>hooks\<close> is the registry of \<open>atexit\<close>.
\<close>

datatype 'h call = Popen pystr "'h option" | Ping 'h bool | Analyse 'h bool | Quit 'h bool

datatype hook = Cleanup

record ('h, 'w) server =
  ENGINES :: "(pystr \<times> 'h) list"
  world :: 'w
  stdout :: "pystr list"
  stderr :: "pystr list"
  calls :: "'h call list"
  hooks :: "hook list"

datatype exn = AttributeError | ValueError | KeyError | EngineError

definition print_out :: "pystr \<Rightarrow> ('h, 'w) server \<Rightarrow> ('h, 'w) server" where
  "print_out x s = s\<lparr>stdout := stdout s @ [x]\<rparr>"

definition print_err :: "pystr \<Rightarrow> ('h, 'w) server \<Rightarrow> ('h, 'w) server" where
  "print_err x s = s\<lparr>stderr := stderr s @ [x]\<rparr>"

text \<open>The lines that a library writes on the standard error during a call.\<close>

definition log_err :: "pystr list \<Rightarrow> ('h, 'w) server \<Rightarrow> ('h, 'w) server" where
  "log_err ls s = s\<lparr>stderr := stderr s @ ls\<rparr>"

section \<open>The engine pool\<close>

text \<open>\<open>ENGINES[engine_path] = chess.engine.SimpleEngine.popen_uci(engine_path, timeout=None)\<close>\<close>

definition spawn ::
  "('g, 'b, 'm, 'h, 'w) libs \<Rightarrow> pystr \<Rightarrow> ('h, 'w) server \<Rightarrow> (exn + unit) \<times> ('h, 'w) server" where
  "spawn L engine_path s =
     (case popen_uci L engine_path (world s) of
        (None, w) \<Rightarrow>
          (Inl EngineError, s\<lparr>world := w, calls := calls s @ [Popen engine_path None]\<rparr>)
      | (Some h, w) \<Rightarrow>
          (Inr (), s\<lparr>ENGINES := AList.update engine_path h (ENGINES s), world := w,
                      calls := calls s @ [Popen engine_path (Some h)]\<rparr>))"

text \<open>\<open>ENGINES[engine_path]\<close>\<close>

definition engines_item :: "('h, 'w) server \<Rightarrow> pystr \<Rightarrow> exn + 'h" where
  "engines_item s engine_path =
     (case map_of (ENGINES s) engine_path of None \<Rightarrow> Inl KeyError | Some h \<Rightarrow> Inr h)"

definition instantiate_engine ::
  "('g, 'b, 'm, 'h, 'w) libs \<Rightarrow> pystr \<Rightarrow> ('h, 'w) server \<Rightarrow> (exn + 'h) \<times> ('h, 'w) server" where
  "instantiate_engine L engine_path s =
     (case (if map_of (ENGINES s) engine_path = None then spawn L engine_path s else (Inr (), s)) of
        (Inl e, s1) \<Rightarrow> (Inl e, s1)
      | (Inr _, s1) \<Rightarrow>
          (case engines_item s1 engine_path of
             Inl e \<Rightarrow> (Inl e, s1)
           | Inr h \<Rightarrow>
               (case engine_ping L h (world s1) of
                  (True, w) \<Rightarrow>
                    (let s2 = s1\<lparr>world := w, calls := calls s1 @ [Ping h True]\<rparr>
                     in (engines_item s2 engine_path, s2))
                | (False, w) \<Rightarrow>
                    (case spawn L engine_path
                            (s1\<lparr>world := w, calls := calls s1 @ [Ping h False]\<rparr>) of
                       (Inl e, s3) \<Rightarrow> (Inl e, s3)
                     | (Inr _, s3) \<Rightarrow> (engines_item s3 engine_path, s3)))))"

fun quit_all ::
  "('g, 'b, 'm, 'h, 'w) libs \<Rightarrow> 'h list \<Rightarrow> ('h, 'w) server \<Rightarrow> ('h, 'w) server" where
  "quit_all L [] s = s"
| "quit_all L (e # es) s =
     (case engine_quit L e (world s) of
        (ok, w) \<Rightarrow> quit_all L es (s\<lparr>world := w, calls := calls s @ [Quit e ok]\<rparr>))"

definition cleanup :: "('g, 'b, 'm, 'h, 'w) libs \<Rightarrow> ('h, 'w) server \<Rightarrow> ('h, 'w) server" where
  "cleanup L s = quit_all L (map snd (ENGINES s)) s"

section \<open>The callbacks\<close>

text \<open>
  A callback returns a string, or Python's \<open>None\<close> when its body ends without \<open>return\<close>;
  it may also raise.  \<open>str_of\<close> is what \<open>print\<close> writes for such a value.
\<close>

definition str_of :: "pystr option \<Rightarrow> pystr" where
  "str_of v = (case v of None \<Rightarrow> py ''None'' | Some x \<Rightarrow> x)"

text \<open>
  The rows of the box drawn by the text board: a left corner, three horizontal bars (U+2500)
  for each of the eight files, a junction between files, a right corner.
\<close>

definition box_row :: "nat \<Rightarrow> nat \<Rightarrow> nat \<Rightarrow> pystr" where
  "box_row l m r =
     [l] @ concat (replicate 7 [9472, 9472, 9472, m]) @ [9472, 9472, 9472, r]"

text \<open>
  The table of \<open>str.maketrans\<close>: the black figures U+265C, U+265E, U+265D, U+265B, U+265A,
  U+265F become \<open>RNBQKP\<close> and the white figures U+2656, U+2658, U+2657, U+2655, U+2654, U+2659
  become \<open>rnbqkp\<close>.
\<close>

definition piece_table :: "(nat \<times> nat) list" where
  "piece_table =
     zip [9820, 9822, 9821, 9819, 9818, 9823, 9814, 9816, 9815, 9813, 9812, 9817]
         (py ''RNBQKPrnbqkp'')"

definition translate :: "(nat \<times> nat) list \<Rightarrow> pystr \<Rightarrow> pystr" where
  "translate table text = map (\<lambda>c. case map_of table c of None \<Rightarrow> c | Some d \<Rightarrow> d) text"

text \<open>The body of the \<open>text\<close> branch of \<open>pgn_to_board_callback\<close>, one line for each assignment.\<close>

definition board_text :: "(nat \<Rightarrow> bool) \<Rightarrow> pystr \<Rightarrow> pystr" where
  "board_text decimal text0 =
     (let text = re_sub (lit [183]) (\<lambda>m. py '' '') None text0;
          text = re_sub (lit (py ''-----------------'')) (\<lambda>m. box_row 9500 9532 9508) None text;
          text = re_sub (Bos # lit (py ''  '' @ box_row 9500 9532 9508))
                   (\<lambda>m. py ''  '' @ box_row 9484 9516 9488) None text;
          text = re_sub (lit (box_row 9500 9532 9508 @ [10] @ py ''   a''))
                   (\<lambda>m. box_row 9492 9524 9496 @ [10] @ py ''   a'') None text;
          text = re_sub (lit (py ''a b c d e f g h''))
                   (\<lambda>m. py '' a   b   c   d   e   f   g   h'') None text;
          text = re_sub (lit [124]) (\<lambda>m. [32, 9474, 32]) None text;
          text = re_sub [Bol, Mark, One decimal, Mark, One (\<lambda>c. c = 32)]
                   (\<lambda>m. group m 1) None text;
          text = translate piece_table text;
          text = re_sub (lit [10]) (\<lambda>m. [92, 110]) None text
      in text)"

definition pgn_to_board_callback ::
  "('g, 'b, 'm, 'h, 'w) libs \<Rightarrow> 'g \<Rightarrow> 'b \<Rightarrow> 'm option \<Rightarrow> args \<Rightarrow> ('h, 'w) server
     \<Rightarrow> (exn + pystr option) \<times> ('h, 'w) server" where
  "pgn_to_board_callback L game board last_move a s =
     (if board_format a = py ''svg''
      then (Inr (Some (py '':board-svg '' @ svg_board L board last_move (pixels a))), s)
      else if board_format a = py ''text''
      then (Inr (Some (py '':board-text '' @
                         board_text (unicode_decimal L) (board_unicode L board))), s)
      else (Inr None,
            print_err (py ''Bad pgn-mode -board_format value: '' @ board_format a) s))"

definition pgn_to_fen_callback ::
  "('g, 'b, 'm, 'h, 'w) libs \<Rightarrow> 'g \<Rightarrow> 'b \<Rightarrow> 'm option \<Rightarrow> args \<Rightarrow> ('h, 'w) server
     \<Rightarrow> (exn + pystr option) \<times> ('h, 'w) server" where
  "pgn_to_fen_callback L game board last_move a s =
     (Inr (Some (py '':fen '' @ board_fen L board)), s)"

definition pgn_to_score_callback ::
  "('g, 'b, 'm, 'h, 'w) libs \<Rightarrow> 'g \<Rightarrow> 'b \<Rightarrow> 'm option \<Rightarrow> args \<Rightarrow> ('h, 'w) server
     \<Rightarrow> (exn + pystr option) \<times> ('h, 'w) server" where
  "pgn_to_score_callback L game board last_move a s =
     (case instantiate_engine L (engine a) s of
        (Inl e, s1) \<Rightarrow> (Inl e, s1)
      | (Inr h, s1) \<Rightarrow>
          (case engine_analyse L h board (depth a) (world s1) of
             (None, w) \<Rightarrow>
               (Inl EngineError, s1\<lparr>world := w, calls := calls s1 @ [Analyse h False]\<rparr>)
           | (Some score, w) \<Rightarrow>
               (Inr (Some (py '':score '' @ score)),
                s1\<lparr>world := w, calls := calls s1 @ [Analyse h True]\<rparr>)))"

definition pgn_to_mainline_callback ::
  "('g, 'b, 'm, 'h, 'w) libs \<Rightarrow> 'g \<Rightarrow> 'b \<Rightarrow> 'm option \<Rightarrow> args \<Rightarrow> ('h, 'w) server
     \<Rightarrow> (exn + pystr option) \<times> ('h, 'w) server" where
  "pgn_to_mainline_callback L game board last_move a s =
     (let mainline = game_accept L game;
          mainline = re_sub result_re (\<lambda>m. []) None mainline
      in (Inr (Some (py '':san '' @ mainline)), s))"

datatype callback = PgnToFen | PgnToBoard | PgnToScore | PgnToMainline

definition CALLBACKS :: "(pystr \<times> callback) list" where
  "CALLBACKS =
     [(py '':pgn-to-fen'', PgnToFen),
      (py '':pgn-to-board'', PgnToBoard),
      (py '':pgn-to-score'', PgnToScore),
      (py '':pgn-to-mainline'', PgnToMainline)]"

fun run_callback ::
  "callback \<Rightarrow> ('g, 'b, 'm, 'h, 'w) libs \<Rightarrow> 'g \<Rightarrow> 'b \<Rightarrow> 'm option \<Rightarrow> args \<Rightarrow> ('h, 'w) server
     \<Rightarrow> (exn + pystr option) \<times> ('h, 'w) server" where
  "run_callback PgnToFen = pgn_to_fen_callback"
| "run_callback PgnToBoard = pgn_to_board_callback"
| "run_callback PgnToScore = pgn_to_score_callback"
| "run_callback PgnToMainline = pgn_to_mainline_callback"

section \<open>The server loop\<close>

text \<open>
  The loop \<open>for move in game.mainline_moves()\<close>: \<open>last_move\<close> starts as \<open>False\<close> (here
  \<open>None\<close>) and the board as \<open>game.board()\<close>.
\<close>

fun replay ::
  "('g, 'b, 'm, 'h, 'w) libs \<Rightarrow> 'm list \<Rightarrow> 'b \<Rightarrow> 'm option \<Rightarrow> 'b \<times> 'm option" where
  "replay L [] board last_move = (board, last_move)"
| "replay L (move # moves) board last_move =
     replay L moves (board_push L board move) (Some move)"

text \<open>
  The lines under \<open># Build game board\<close>, from the payload and the state of the process.
  What \<open>read_game\<close> writes on the standard error is there from then on.  \<open>game.board()\<close>
  on \<open>None\<close> raises \<open>AttributeError\<close>; on a game it may raise \<open>ValueError\<close>.
\<close>

definition build_game_board ::
  "('g, 'b, 'm, 'h, 'w) libs \<Rightarrow> pystr \<Rightarrow> ('h, 'w) server
     \<Rightarrow> (exn + ('g \<times> 'b \<times> 'm option)) \<times> ('h, 'w) server" where
  "build_game_board L payload s =
     (let pgn = payload;
          pgn = re_sub (lit [92, 110]) (\<lambda>m. [10]) None pgn;
          pgn = pgn @ [10, 10]
      in case read_game L pgn of
           (logged, None) \<Rightarrow> (Inl AttributeError, log_err logged s)
         | (logged, Some game) \<Rightarrow>
             (case game_board L game of
                None \<Rightarrow> (Inl ValueError, log_err logged s)
              | Some board0 \<Rightarrow>
                  (case replay L (mainline_moves L game) board0 None of
                     (board, last_move) \<Rightarrow>
                       (Inr (game, board, last_move), log_err logged s))))"

text \<open>
  The options of a request: \<open>argparser.parse_args(shlex.split(m.group(2)))\<close> under
  \<open>try\<close>; the bare \<open>except\<close> catches every exception, the exit of \<open>argparse\<close> too.
  \<open>Inl\<close> holds what \<open>argparse\<close> had printed before.
\<close>

definition request_options ::
  "('g, 'b, 'm, 'h, 'w) libs \<Rightarrow> pystr \<Rightarrow> (pystr list \<times> pystr list) + args" where
  "request_options L text =
     (case shlex_split L text of
        None \<Rightarrow> Inl ([], [])
      | Some tokens \<Rightarrow> parse_args L generate_argparser tokens)"

datatype flow = Continue | Break | Raise exn

text \<open>One turn of the \<open>while True\<close> loop of \<open>listen\<close>, on the line that \<open>readline\<close> returned.\<close>

definition listen_step ::
  "('g, 'b, 'm, 'h, 'w) libs \<Rightarrow> pystr \<Rightarrow> ('h, 'w) server \<Rightarrow> flow \<times> ('h, 'w) server" where
  "listen_step L input_str s =
     (if length input_str = 0 then (Break, cleanup L s)
      else if input_str = [10] then (Continue, s)
      else case re_search request_re None input_str of
        None \<Rightarrow>
          (Continue, print_err (py ''Bad pgn-mode python process input: '' @ input_str) s)
      | Some m \<Rightarrow>
          (let command = group m 1 in
           case map_of CALLBACKS command of
             None \<Rightarrow>
               (Continue, print_err (py ''Bad request command (unknown): '' @ command) s)
           | Some cb \<Rightarrow>
               (case request_options L (group m 2) of
                  Inl (out, err) \<Rightarrow>
                    (Continue,
                     print_err (py ''Bad request options: '' @ group m 2)
                       (s\<lparr>stdout := stdout s @ out, stderr := stderr s @ err\<rparr>))
                | Inr a \<Rightarrow>
                    (let payload_type = group m 3 in
                     if \<not> payload_type = py '':pgn''
                     then (Continue,
                           print_err (py ''Bad request :payload-type (unknown): '' @ payload_type) s)
                     else case build_game_board L (group m 4) s of
                            (Inl e, s0) \<Rightarrow> (Raise e, s0)
                          | (Inr (game, board, last_move), s0) \<Rightarrow>
                              (case run_callback cb L game board last_move a s0 of
                                 (Inl e, s1) \<Rightarrow> (Raise e, s1)
                               | (Inr v, s1) \<Rightarrow> (Continue, print_out (str_of v) s1))))))"

text \<open>
  The standard input is the list of the lines that \<open>readline\<close> will return, followed by the
  end of the file, where \<open>readline\<close> returns the empty string.  \<open>listen\<close> returns \<open>None\<close>
  when the loop ends by \<open>break\<close> and the exception when one escapes.
\<close>

fun listen ::
  "('g, 'b, 'm, 'h, 'w) libs \<Rightarrow> pystr list \<Rightarrow> ('h, 'w) server \<Rightarrow> exn option \<times> ('h, 'w) server" where
  "listen L [] s =
     (case listen_step L [] s of
        (Raise e, s1) \<Rightarrow> (Some e, s1)
      | (_, s1) \<Rightarrow> (None, s1))"
| "listen L (input_str # rest) s =
     (case listen_step L input_str s of
        (Continue, s1) \<Rightarrow> listen L rest s1
      | (Break, s1) \<Rightarrow> (None, s1)
      | (Raise e, s1) \<Rightarrow> (Some e, s1))"

section \<open>The main program\<close>

definition version :: pystr where
  "version = py ''0.50''"

text \<open>\<open>atexit.register(f)\<close>, and the run of the registered functions when the process exits.\<close>

definition atexit_register :: "hook \<Rightarrow> ('h, 'w) server \<Rightarrow> ('h, 'w) server" where
  "atexit_register f s = s\<lparr>hooks := hooks s @ [f]\<rparr>"

fun run_hook :: "('g, 'b, 'm, 'h, 'w) libs \<Rightarrow> hook \<Rightarrow> ('h, 'w) server \<Rightarrow> ('h, 'w) server" where
  "run_hook L Cleanup s = cleanup L s"

definition at_exit :: "('g, 'b, 'm, 'h, 'w) libs \<Rightarrow> ('h, 'w) server \<Rightarrow> ('h, 'w) server" where
  "at_exit L s = fold (run_hook L) (rev (hooks s)) s"

text \<open>
  The block under \<open>if __name__ == '__main__'\<close>, from the process arguments and the lines of the
  standard input to the state in which the process ends.
\<close>

definition main ::
  "('g, 'b, 'm, 'h, 'w) libs \<Rightarrow> pystr list \<Rightarrow> pystr list \<Rightarrow> ('h, 'w) server
     \<Rightarrow> exn option \<times> ('h, 'w) server" where
  "main L argv stdin s =
     (if length argv > 1 \<and> (argv ! 1 = py ''-version'' \<or> argv ! 1 = py ''--version'')
      then (None, at_exit L (print_out version s))
      else (case listen L stdin (atexit_register Cleanup s) of
              (r, s1) \<Rightarrow> (r, at_exit L s1)))"

section \<open>The vocabulary of the specification\<close>

text \<open>
  A request line is well formed when it passes the checks of \<open>listen\<close> in their order: it is
  neither the end of the input nor the empty line, the request pattern matches, the command is
  a key of \<open>CALLBACKS\<close>, the options are parsed, and the payload type is \<open>:pgn\<close>.
\<close>

definition well_formed :: "('g, 'b, 'm, 'h, 'w) libs \<Rightarrow> pystr \<Rightarrow> bool" where
  "well_formed L line =
     (length line \<noteq> 0 \<and> line \<noteq> [10] \<and>
      (case re_search request_re None line of
         None \<Rightarrow> False
       | Some m \<Rightarrow>
           map_of CALLBACKS (group m 1) \<noteq> None \<and>
           (case request_options L (group m 2) of Inl x \<Rightarrow> False | Inr a \<Rightarrow> True) \<and>
           group m 3 = py '':pgn''))"



text \<open>
  A handle is known to be live after the calls \<open>cs\<close> (the newest first) when it has answered
  a probe since the call of \<open>popen_uci\<close> that created it.
\<close>

fun probed_since_creation :: "'h \<Rightarrow> 'h call list \<Rightarrow> bool" where
  "probed_since_creation h [] = False"
| "probed_since_creation h (Ping h' ok # cs) =
     (if h' = h \<and> ok then True else probed_since_creation h cs)"
| "probed_since_creation h (Popen p r # cs) =
     (if r = Some h then False else probed_since_creation h cs)"
| "probed_since_creation h (c # cs) = probed_since_creation h cs"

definition known_live :: "'h \<Rightarrow> 'h call list \<Rightarrow> bool" where
  "known_live h cs = probed_since_creation h (rev cs)"


text \<open>
  The construction of the game and the board in the words of the specification: every
  backslash followed by \<open>n\<close> becomes a newline, a blank line is appended, the text is parsed,
  and the moves of the main line are pushed in order on the initial board; the last move is
  the last of them, or the sentinel for a game without moves.  \<open>pgn_text\<close> is the text that
  is parsed.  The construction fails when the text holds no game, and when the game has no
  initial board.
\<close>

fun unescape :: "pystr \<Rightarrow> pystr" where
  "unescape [] = []"
| "unescape [c] = [c]"
| "unescape (c # d # s) =
     (if c = 92 \<and> d = 110 then 10 # unescape s else c # unescape (d # s))"

definition pgn_text :: "pystr \<Rightarrow> pystr" where
  "pgn_text payload = unescape payload @ [10] @ [10]"

definition construct ::
  "('g, 'b, 'm, 'h, 'w) libs \<Rightarrow> pystr \<Rightarrow> exn + ('g \<times> 'b \<times> 'm option)" where
  "construct L payload =
     (case snd (read_game L (pgn_text payload)) of
        None \<Rightarrow> Inl AttributeError
      | Some game \<Rightarrow>
          (case game_board L game of
             None \<Rightarrow> Inl ValueError
           | Some initial \<Rightarrow>
               Inr (game,
                    foldl (board_push L) initial (mainline_moves L game),
                    (if mainline_moves L game = [] then None
                     else Some (last (mainline_moves L game))))))"


text \<open>
  The cleaning of the exported move text.  \<open>strip_result\<close>: when the text ends with a token
  that has white space before it, the token and the run of white space before it are removed;
  any other text is left as it is.  \<open>strip_last_token\<close> is the reading that removes the last
  token and the white space before it, if any, in every case.
\<close>

definition strip_result :: "pystr \<Rightarrow> pystr" where
  "strip_result s =
     (let token = takeWhile (\<lambda>c. \<not> is_space c) (rev s);
          before = dropWhile (\<lambda>c. \<not> is_space c) (rev s)
      in if token \<noteq> [] \<and> before \<noteq> [] then rev (dropWhile is_space before) else s)"

definition strip_last_token :: "pystr \<Rightarrow> pystr" where
  "strip_last_token s = rev (dropWhile is_space (dropWhile (\<lambda>c. \<not> is_space c) (rev s)))"

section \<open>A small instance of the collaborators\<close>

text \<open>
  The examples below run the server on concrete lines.  They need some chess library and some
  engine; this instance is not the real one, it only behaves like it on the lines of the
  examples.  A game is the list of the moves of its movetext, a board the list of the moves
  played, a handle a number, and the world counts the handles given out and knows the engines
  that have stopped answering.  The library reports a first move \<open>e5\<close> as illegal and keeps
  the game without it.  Two engines are installed, \<open>stockfish\<close> and \<open>gnuchess\<close>; the spawn
  of any other path raises.
\<close>

fun words_acc :: "pystr \<Rightarrow> pystr \<Rightarrow> pystr list" where
  "words_acc w [] = (if w = [] then [] else [w])"
| "words_acc w (c # s) =
     (if c \<in> set [32, 9, 13, 10]
      then (if w = [] then words_acc [] s else w # words_acc [] s)
      else words_acc (w @ [c]) s)"

definition toy_shlex_split :: "pystr \<Rightarrow> pystr list option" where
  "toy_shlex_split text =
     (if 34 \<in> set text \<or> 39 \<in> set text \<or> 92 \<in> set text then None
      else Some (words_acc [] text))"

fun toy_int :: "int \<Rightarrow> pystr \<Rightarrow> int option" where
  "toy_int n [] = Some n"
| "toy_int n (c # s) =
     (if 48 \<le> c \<and> c \<le> 57 then toy_int (10 * n + int (c - 48)) s else None)"

definition toy_setattr :: "pystr \<Rightarrow> argval \<Rightarrow> args \<Rightarrow> args option" where
  "toy_setattr d v a =
     (case v of
        IntV i \<Rightarrow>
          (if d = py ''pixels'' then Some (a\<lparr>pixels := i\<rparr>)
           else if d = py ''depth'' then Some (a\<lparr>depth := i\<rparr>) else None)
      | StrV x \<Rightarrow>
          (if d = py ''board_format'' then Some (a\<lparr>board_format := x\<rparr>)
           else if d = py ''engine'' then Some (a\<lparr>engine := x\<rparr>) else None))"

fun toy_defaults :: "add_argument list \<Rightarrow> args \<Rightarrow> args option" where
  "toy_defaults [] a = Some a"
| "toy_defaults (d # ds) a =
     (case toy_setattr (dest d) (arg_default d) a of
        None \<Rightarrow> None
      | Some a' \<Rightarrow> toy_defaults ds a')"

fun toy_options :: "add_argument list \<Rightarrow> pystr list \<Rightarrow> args \<Rightarrow> args option" where
  "toy_options ds [] a = Some a"
| "toy_options ds [f] a = None"
| "toy_options ds (f # v # ts) a =
     (case find (\<lambda>d. f \<in> set (flags d)) ds of
        None \<Rightarrow> None
      | Some d \<Rightarrow>
          (case (case arg_type d of
                   TStr \<Rightarrow> Some (StrV v)
                 | TInt \<Rightarrow> (if v = [] then None else map_option IntV (toy_int 0 v))) of
             None \<Rightarrow> None
           | Some x \<Rightarrow>
               (case toy_setattr (dest d) x a of
                  None \<Rightarrow> None
                | Some a' \<Rightarrow> toy_options ds ts a')))"

definition toy_parse_args ::
  "add_argument list \<Rightarrow> pystr list \<Rightarrow> (pystr list \<times> pystr list) + args" where
  "toy_parse_args ds tokens =
     (case toy_defaults ds \<lparr>pixels = 0, board_format = [], engine = [], depth = 0\<rparr> of
        None \<Rightarrow> Inl ([], [py ''usage''])
      | Some a \<Rightarrow>
          (case toy_options ds tokens a of
             None \<Rightarrow> Inl ([], [py ''usage''])
           | Some a' \<Rightarrow> Inr a'))"

definition toy_read_game :: "pystr \<Rightarrow> pystr list \<times> pystr list option" where
  "toy_read_game text =
     (case words_acc [] text of
        [] \<Rightarrow> ([], None)
      | ws \<Rightarrow>
          (let moves = filter (\<lambda>w. last w \<noteq> 46 \<and> w \<noteq> py ''*'') ws
           in if moves \<noteq> [] \<and> hd moves = py ''e5''
              then ([py ''illegal san: e5''], Some [])
              else ([], Some moves)))"

definition toy_fen :: "pystr list \<Rightarrow> pystr" where
  "toy_fen board =
     (if board = [] then py ''rnbqkbnr/pppppppp/8/8/8/8/PPPPPPPP/RNBQKBNR w KQkq - 0 1''
      else if board = [py ''e4'']
      then py ''rnbqkbnr/pppppppp/8/8/4P3/8/PPPP1PPP/RNBQKBNR b KQkq - 0 1''
      else py ''?'')"

definition toy_accept :: "pystr list \<Rightarrow> pystr" where
  "toy_accept game =
     (if game = [] then py ''*''
      else if game = [py ''e4''] then py ''1. e4 *''
      else py ''?'')"

record toy_world =
  next_handle :: nat
  stopped :: "nat set"

definition toy_popen_uci :: "pystr \<Rightarrow> toy_world \<Rightarrow> nat option \<times> toy_world" where
  "toy_popen_uci path w =
     (if path \<in> set [py ''stockfish'', py ''gnuchess'']
      then (Some (next_handle w), w\<lparr>next_handle := next_handle w + 1\<rparr>)
      else (None, w))"

definition toy_ping :: "nat \<Rightarrow> toy_world \<Rightarrow> bool \<times> toy_world" where
  "toy_ping h w = (h \<notin> stopped w, w)"

definition toy_analyse ::
  "nat \<Rightarrow> pystr list \<Rightarrow> int \<Rightarrow> toy_world \<Rightarrow> pystr option \<times> toy_world" where
  "toy_analyse h board d w =
     (if h \<in> stopped w then (None, w) else (Some (py ''PovScore(Cp(+30), WHITE)''), w))"

definition toy_quit :: "nat \<Rightarrow> toy_world \<Rightarrow> bool \<times> toy_world" where
  "toy_quit h w = (h \<notin> stopped w, w\<lparr>stopped := insert h (stopped w)\<rparr>)"

definition toy :: "(pystr list, pystr list, pystr, nat, toy_world) libs" where
  "toy =
     \<lparr>unicode_decimal = (\<lambda>c. 48 \<le> c \<and> c \<le> 57),
      shlex_split = toy_shlex_split,
      parse_args = toy_parse_args,
      read_game = toy_read_game,
      game_board = (\<lambda>game. Some []),
      mainline_moves = (\<lambda>game. game),
      board_push = (\<lambda>board move. board @ [move]),
      board_fen = toy_fen,
      svg_board = (\<lambda>board last_move size. py ''<svg/>''),
      board_unicode = (\<lambda>board. []),
      game_accept = toy_accept,
      popen_uci = toy_popen_uci,
      engine_ping = toy_ping,
      engine_analyse = toy_analyse,
      engine_quit = toy_quit\<rparr>"

definition start :: "(nat, toy_world) server" where
  "start =
     \<lparr>ENGINES = [], world = \<lparr>next_handle = 0, stopped = {}\<rparr>,
      stdout = [], stderr = [], calls = [], hooks = []\<rparr>"

text \<open>
  A state of the server some time after a score request: the engine of \<open>stockfish\<close> has
  handle \<open>0\<close>, it answered the probe then, and it has stopped answering since.
\<close>

definition stalled :: "(nat, toy_world) server" where
  "stalled =
     \<lparr>ENGINES = [(py ''stockfish'', 0)], world = \<lparr>next_handle = 1, stopped = {0}\<rparr>,
      stdout = [], stderr = [],
      calls = [Popen (py ''stockfish'') (Some 0), Ping 0 True, Analyse 0 True],
      hooks = [Cleanup]\<rparr>"


section \<open>Unfolding and evaluation\<close>

lemmas toy_defs = toy_def toy_shlex_split_def toy_parse_args_def toy_read_game_def toy_fen_def
  toy_accept_def toy_popen_uci_def toy_ping_def toy_analyse_def toy_quit_def toy_setattr_def
  generate_argparser_def start_def

lemmas step_defs = listen_step_def request_re_def is_space_def group_def CALLBACKS_def
  request_options_def build_game_board_def Let_def re_sub.simps lit_def print_out_def
  print_err_def log_err_def str_of_def cleanup_def pgn_to_fen_callback_def
  pgn_to_board_callback_def pgn_to_score_callback_def pgn_to_mainline_callback_def
  result_re_def py_def

lemma search_empty: "re_search request_re None [] = None"
  by (simp add: request_re_def)

lemma log_err_Nil: "log_err [] s = s"
  by (simp add: log_err_def)

lemma log_err_frame:
  "ENGINES (log_err ls s) = ENGINES s" "world (log_err ls s) = world s"
  "stdout (log_err ls s) = stdout s" "calls (log_err ls s) = calls s"
  "hooks (log_err ls s) = hooks s"
  by (simp_all add: log_err_def)

lemma well_formed_iff:
  "well_formed L line \<longleftrightarrow>
     (\<exists>m cb a. re_search request_re None line = Some m \<and> line \<noteq> [10] \<and>
        map_of CALLBACKS (group m 1) = Some cb \<and> request_options L (group m 2) = Inr a \<and>
        group m 3 = py '':pgn'')"
  using search_empty
  by (auto simp: well_formed_def split: option.splits sum.splits)



lemma spawn_output:
  "spawn L p s = (r, s1) \<Longrightarrow> stdout s1 = stdout s \<and> stderr s1 = stderr s \<and> hooks s1 = hooks s"
  by (auto simp: spawn_def split: prod.splits option.splits)

lemma instantiate_engine_output:
  "instantiate_engine L p s = (r, s1) \<Longrightarrow>
     stdout s1 = stdout s \<and> stderr s1 = stderr s \<and> hooks s1 = hooks s"
  by (auto simp: instantiate_engine_def Let_def
           split: prod.splits sum.splits if_splits bool.splits dest!: spawn_output)

lemma re_sub_unescape: "re_sub (lit [92, 110]) (\<lambda>m. [10]) prev s = unescape s"
proof (induction s arbitrary: prev rule: unescape.induct)
  case 1
  show ?case by (subst re_sub.simps) (simp add: lit_def)
next
  case (2 c)
  have "re_sub (lit [92, 110]) (\<lambda>m. [10]) p [] = []" for p
    by (subst re_sub.simps) (simp add: lit_def)
  then show ?case by (subst re_sub.simps) (simp add: lit_def)
next
  case (3 c d s)
  show ?case
  proof (cases "c = 92 \<and> d = 110")
    case True
    with 3(1) show ?thesis by (subst re_sub.simps) (simp add: lit_def)
  next
    case False
    with 3(2) show ?thesis by (subst re_sub.simps) (auto simp: lit_def)
  qed
qed

lemma replay_foldl:
  "replay L moves board last_move =
     (foldl (board_push L) board moves, if moves = [] then last_move else Some (last moves))"
  by (induction moves arbitrary: board last_move) auto

lemma build_game_board_construct:
  "build_game_board L payload s =
     (construct L payload, log_err (fst (read_game L (pgn_text payload))) s)"
proof -
  obtain logged r where rg: "read_game L (unescape payload @ [10, 10]) = (logged, r)"
    by (cases "read_game L (unescape payload @ [10, 10])") auto
  show ?thesis
  proof (cases r)
    case None
    with rg show ?thesis
      by (simp add: build_game_board_def construct_def pgn_text_def Let_def re_sub_unescape)
  next
    case (Some game)
    with rg show ?thesis
      by (cases "game_board L game")
         (simp_all add: build_game_board_def construct_def pgn_text_def Let_def re_sub_unescape
                        replay_foldl)
  qed
qed

lemma build_game_board_frame:
  assumes "build_game_board L payload s = (r, s0)"
  shows "ENGINES s0 = ENGINES s" "world s0 = world s" "stdout s0 = stdout s"
    "calls s0 = calls s" "hooks s0 = hooks s"
  using assms by (auto simp: build_game_board_construct log_err_frame)

lemma listen_step_dispatch:
  assumes "re_search request_re None line = Some m"
      and "line \<noteq> [10]"
      and "map_of CALLBACKS (group m 1) = Some cb"
      and "request_options L (group m 2) = Inr a"
      and "group m 3 = py '':pgn''"
  shows "listen_step L line s =
     (case build_game_board L (group m 4) s of
        (Inl e, s0) \<Rightarrow> (Raise e, s0)
      | (Inr (game, board, last_move), s0) \<Rightarrow>
          (case run_callback cb L game board last_move a s0 of
             (Inl e, s1) \<Rightarrow> (Raise e, s1)
           | (Inr v, s1) \<Rightarrow> (Continue, print_out (str_of v) s1)))"
proof -
  from assms(1) have "line \<noteq> []"
    using search_empty by auto
  with assms show ?thesis
    by (simp add: listen_step_def)
qed

lemma listen_step_built:
  assumes "re_search request_re None line = Some m"
      and "line \<noteq> [10]"
      and "map_of CALLBACKS (group m 1) = Some cb"
      and "request_options L (group m 2) = Inr a"
      and "group m 3 = py '':pgn''"
      and "build_game_board L (group m 4) s = (Inr (game, board, last_move), s0)"
  shows "listen_step L line s =
     (case run_callback cb L game board last_move a s0 of
        (Inl e, s1) \<Rightarrow> (Raise e, s1)
      | (Inr v, s1) \<Rightarrow> (Continue, print_out (str_of v) s1))"
  using listen_step_dispatch [OF assms(1-5), of s] assms(6) by simp

lemma listen_step_eof: "listen_step L [] s = (Break, cleanup L s)"
  by (simp add: listen_step_def)

lemma toy_empty_options:
  "shlex_split toy [] = Some []"
  "parse_args toy generate_argparser [] =
     Inr \<lparr>pixels = 400, board_format = py ''svg'', engine = py ''stockfish'', depth = 20\<rparr>"
  by (simp_all add: toy_defs py_def)

lemma toy_default_options:
  "request_options toy [] =
     Inr \<lparr>pixels = 400, board_format = py ''svg'', engine = py ''stockfish'', depth = 20\<rparr>"
  by (simp add: request_options_def toy_empty_options)

lemma toy_build_e4:
  "build_game_board toy (py ''1. e4'') s =
     (Inr ([py ''e4''], [py ''e4''], Some (py ''e4'')), s)"
  by (simp add: build_game_board_def Let_def re_sub.simps lit_def toy_defs py_def log_err_Nil)

section \<open>What the shutdown leaves unchanged\<close>

lemma quit_all_frame:
  "ENGINES (quit_all L hs s) = ENGINES s \<and> stdout (quit_all L hs s) = stdout s \<and>
   stderr (quit_all L hs s) = stderr s \<and> hooks (quit_all L hs s) = hooks s"
  by (induction hs arbitrary: s) (auto split: prod.splits)

lemma cleanup_frame:
  "ENGINES (cleanup L s) = ENGINES s" "stdout (cleanup L s) = stdout s"
  "stderr (cleanup L s) = stderr s" "hooks (cleanup L s) = hooks s"
  by (simp_all add: cleanup_def quit_all_frame)

section \<open>A request with a blank payload\<close>

lemma blank_line_groups:
  "\<exists>m. re_search request_re None (py '':pgn-to-fen -- :pgn '' @ [92, 110, 10]) = Some m \<and>
       group m 1 = py '':pgn-to-fen'' \<and> group m 2 = [] \<and> group m 3 = py '':pgn'' \<and>
       group m 4 = [92, 110]"
  by (simp add: request_re_def is_space_def group_def py_def)

lemma unescape_blank: "re_sub (lit [92, 110]) (\<lambda>m. [10]) None [92, 110] = [10]"
  by (simp add: lit_def re_sub.simps)

lemma blank_line_well_formed:
  assumes "shlex_split L [] = Some []"
      and "parse_args L generate_argparser [] = Inr a"
  shows "well_formed L (py '':pgn-to-fen -- :pgn '' @ [92, 110, 10])"
proof -
  obtain m where m: "re_search request_re None (py '':pgn-to-fen -- :pgn '' @ [92, 110, 10]) = Some m"
    "group m 1 = py '':pgn-to-fen''" "group m 2 = []" "group m 3 = py '':pgn''"
    using blank_line_groups by blast
  have cb: "map_of CALLBACKS (py '':pgn-to-fen'') \<noteq> None"
    by (simp add: CALLBACKS_def py_def)
  have ne: "py '':pgn-to-fen -- :pgn '' @ [92, 110, 10] \<noteq> [10]"
    by (simp add: py_def)
  from assms have "request_options L [] = Inr a"
    by (simp add: request_options_def)
  with m cb ne show ?thesis
    by (simp add: well_formed_def py_def)
qed

lemma blank_line_step:
  assumes "shlex_split L [] = Some []"
      and "parse_args L generate_argparser [] = Inr a"
      and "read_game L [10, 10, 10] = (logged, None)"
  shows "\<exists>m. re_search request_re None (py '':pgn-to-fen -- :pgn '' @ [92, 110, 10]) = Some m \<and>
             group m 4 \<noteq> [] \<and>
             (\<forall>s. build_game_board L (group m 4) s = (Inl AttributeError, log_err logged s))"
    and "listen_step L (py '':pgn-to-fen -- :pgn '' @ [92, 110, 10]) s =
           (Raise AttributeError, log_err logged s)"
proof -
  let ?line = "py '':pgn-to-fen -- :pgn '' @ [92, 110, 10]"
  obtain m where m: "re_search request_re None ?line = Some m"
    "group m 1 = py '':pgn-to-fen''" "group m 2 = []" "group m 3 = py '':pgn''"
    "group m 4 = [92, 110]"
    using blank_line_groups by blast
  have build: "build_game_board L (group m 4) t = (Inl AttributeError, log_err logged t)" for t
    using assms(3) m(5) by (simp add: build_game_board_def Let_def unescape_blank)
  have cb: "map_of CALLBACKS (group m 1) = Some PgnToFen"
    using m(2) by (simp add: CALLBACKS_def py_def)
  have ne: "?line \<noteq> [10]"
    by (simp add: py_def)
  have opts: "request_options L (group m 2) = Inr a"
    using assms(1,2) m(3) by (simp add: request_options_def)
  show "listen_step L ?line s = (Raise AttributeError, log_err logged s)"
    using listen_step_dispatch [OF m(1) ne cb opts m(4), of s] build by simp
  from m(1,5) build
  show "\<exists>m. re_search request_re None ?line = Some m \<and> group m 4 \<noteq> [] \<and>
             (\<forall>s. build_game_board L (group m 4) s = (Inl AttributeError, log_err logged s))"
    by auto
qed

text \<open>
  Claim C10.  There is an input line that matches the request grammar, with a known command,
  valid options, the payload type \<open>:pgn\<close> and a payload that is not empty, for which the
  construction of the game yields no game and the handling of the request raises an exception
  that nothing catches: the loop ends there, the program prints no diagnostic and the lines
  that follow are not read.  The line is \<^verbatim>\<open>:pgn-to-fen -- :pgn \n\<close>, whose payload is one
  escaped newline; it holds for every library that parses the empty list of options and finds
  no game in a blank text.  The state in which the loop ends is the state before the request,
  with what the library has written on the standard error while it read the blank text.
\<close>

theorem blank_payload_raises:
  assumes "shlex_split L [] = Some []"
      and "parse_args L generate_argparser [] = Inr a"
      and "read_game L [10, 10, 10] = (logged, None)"
  shows "\<exists>line. well_formed L line \<and>
           (\<exists>m. re_search request_re None line = Some m \<and> group m 4 \<noteq> [] \<and>
                (\<forall>s. build_game_board L (group m 4) s =
                       (Inl AttributeError, log_err logged s))) \<and>
           (\<forall>s rest. listen_step L line s = (Raise AttributeError, log_err logged s) \<and>
                     listen L (line # rest) s = (Some AttributeError, log_err logged s) \<and>
                     stdout (log_err logged s) = stdout s)"
proof -
  let ?line = "py '':pgn-to-fen -- :pgn '' @ [92, 110, 10]"
  have wf: "well_formed L ?line"
    using assms(1,2) by (rule blank_line_well_formed)
  note step = blank_line_step [OF assms]
  have "listen L (?line # rest) s = (Some AttributeError, log_err logged s)" for s rest
    by (simp add: step(2))
  with wf step show ?thesis
    by (intro exI [of _ ?line]) (auto simp: log_err_frame)
qed

lemma toy_blank_game: "read_game toy [10, 10, 10] = ([], None)"
  by (simp add: toy_defs)

theorem blank_payload_raises_witness:
  "shlex_split toy [] = Some [] \<and>
   parse_args toy generate_argparser [] =
     Inr \<lparr>pixels = 400, board_format = py ''svg'', engine = py ''stockfish'', depth = 20\<rparr> \<and>
   read_game toy [10, 10, 10] = ([], None) \<and>
   (\<exists>line. well_formed toy line \<and>
      (\<exists>m. re_search request_re None line = Some m \<and> group m 4 \<noteq> [] \<and>
           (\<forall>s. build_game_board toy (group m 4) s = (Inl AttributeError, s))) \<and>
      (\<forall>s rest. listen_step toy line s = (Raise AttributeError, s) \<and>
                listen toy (line # rest) s = (Some AttributeError, s)))"
  using blank_payload_raises [OF toy_empty_options toy_blank_game] toy_empty_options toy_blank_game
  by (simp add: log_err_Nil)

section \<open>The construction of the game and the board\<close>

text \<open>
  Claim C4.  For every line that passes the checks of \<open>listen\<close>, the game, the board and the
  last move handed to the callback are those of \<open>construct\<close>: every backslash followed by
  \<open>n\<close> in the payload is replaced by a newline, a blank line is appended, the text is parsed
  into a game, and the moves of the main line are pushed in order on the initial board of the
  game, the last move being the last one pushed, or the sentinel when the game has no move.
  When the construction fails (the text holds no game, or the game has no initial board), no
  callback is called.  The callback starts in the state before the request, with what the
  library has written on the standard error while it parsed the text.
\<close>

theorem game_board_construction:
  assumes "re_search request_re None line = Some m"
      and "line \<noteq> [10]"
      and "map_of CALLBACKS (group m 1) = Some cb"
      and "request_options L (group m 2) = Inr a"
      and "group m 3 = py '':pgn''"
  shows "listen_step L line s =
     (case construct L (group m 4) of
        Inl e \<Rightarrow> (Raise e, log_err (fst (read_game L (pgn_text (group m 4)))) s)
      | Inr (game, board, last_move) \<Rightarrow>
          (case run_callback cb L game board last_move a
                  (log_err (fst (read_game L (pgn_text (group m 4)))) s) of
             (Inl e, s1) \<Rightarrow> (Raise e, s1)
           | (Inr v, s1) \<Rightarrow> (Continue, print_out (str_of v) s1)))"
  using listen_step_dispatch [OF assms, of s]
  by (simp add: build_game_board_construct split: sum.splits)

lemma escaped_line_groups:
  "\<exists>m. re_search request_re None
          (py '':pgn-to-fen -- :pgn 1. e4'' @ [92, 110] @ py ''*'' @ [92, 110, 10]) = Some m \<and>
       group m 1 = py '':pgn-to-fen'' \<and> group m 2 = [] \<and> group m 3 = py '':pgn'' \<and>
       group m 4 = py ''1. e4'' @ [92, 110] @ py ''*'' @ [92, 110]"
  by (simp add: request_re_def is_space_def group_def py_def)

lemma toy_construct_escaped:
  "construct toy (py ''1. e4'' @ [92, 110] @ py ''*'' @ [92, 110]) =
     Inr ([py ''e4''], [py ''e4''], Some (py ''e4''))"
  "unescape (py ''1. e4'' @ [92, 110] @ py ''*'' @ [92, 110]) = py ''1. e4'' @ [10] @ py ''*'' @ [10]"
  "fst (read_game toy (pgn_text (py ''1. e4'' @ [92, 110] @ py ''*'' @ [92, 110]))) = []"
  by (simp_all add: construct_def pgn_text_def toy_defs py_def)

theorem game_board_construction_witness:
  "unescape (py ''1. e4'' @ [92, 110] @ py ''*'' @ [92, 110]) = py ''1. e4'' @ [10] @ py ''*'' @ [10] \<and>
   construct toy (py ''1. e4'' @ [92, 110] @ py ''*'' @ [92, 110]) =
     Inr ([py ''e4''], [py ''e4''], Some (py ''e4'')) \<and>
   listen_step toy (py '':pgn-to-fen -- :pgn 1. e4'' @ [92, 110] @ py ''*'' @ [92, 110, 10]) start =
     (Continue,
      start\<lparr>stdout := [py '':fen rnbqkbnr/pppppppp/8/8/4P3/8/PPPP1PPP/RNBQKBNR b KQkq - 0 1'']\<rparr>)"
proof -
  let ?line = "py '':pgn-to-fen -- :pgn 1. e4'' @ [92, 110] @ py ''*'' @ [92, 110, 10]"
  obtain m where m: "re_search request_re None ?line = Some m"
    "group m 1 = py '':pgn-to-fen''" "group m 2 = []" "group m 3 = py '':pgn''"
    "group m 4 = py ''1. e4'' @ [92, 110] @ py ''*'' @ [92, 110]"
    using escaped_line_groups by blast
  have ne: "?line \<noteq> [10]"
    by (simp add: py_def)
  have cb: "map_of CALLBACKS (group m 1) = Some PgnToFen"
    using m(2) by (simp add: CALLBACKS_def py_def)
  have opts: "request_options toy (group m 2) =
      Inr \<lparr>pixels = 400, board_format = py ''svg'', engine = py ''stockfish'', depth = 20\<rparr>"
    using m(3) toy_default_options by simp
  have fen: "py '':fen '' @ board_fen toy [py ''e4''] =
      py '':fen rnbqkbnr/pppppppp/8/8/4P3/8/PPPP1PPP/RNBQKBNR b KQkq - 0 1''"
    by (simp add: toy_defs py_def)
  have c: "construct toy (group m 4) = Inr ([py ''e4''], [py ''e4''], Some (py ''e4''))"
    using m(5) toy_construct_escaped(1) by simp
  have l: "fst (read_game toy (pgn_text (group m 4))) = []"
    using m(5) toy_construct_escaped(3) by simp
  have "listen_step toy ?line start =
     (Continue,
      start\<lparr>stdout := [py '':fen rnbqkbnr/pppppppp/8/8/4P3/8/PPPP1PPP/RNBQKBNR b KQkq - 0 1'']\<rparr>)"
    unfolding game_board_construction [OF m(1) ne cb opts m(4)] c l log_err_Nil using fen
    by (simp add: pgn_to_fen_callback_def print_out_def str_of_def start_def)
  with toy_construct_escaped show ?thesis by simp
qed

section \<open>A board format that is neither \<open>svg\<close> nor \<open>text\<close>\<close>

lemma bad_board_format_reply:
  assumes "re_search request_re None line = Some m"
      and "line \<noteq> [10]"
      and "map_of CALLBACKS (group m 1) = Some PgnToBoard"
      and "request_options L (group m 2) = Inr a"
      and "group m 3 = py '':pgn''"
      and "build_game_board L (group m 4) s = (Inr (game, board, last_move), s0)"
      and "board_format a \<noteq> py ''svg''"
      and "board_format a \<noteq> py ''text''"
  shows "listen_step L line s =
     (Continue,
      print_out (py ''None'')
        (print_err (py ''Bad pgn-mode -board_format value: '' @ board_format a) s0))"
  using listen_step_built [OF assms(1-6)] assms(7,8)
  by (simp add: pgn_to_board_callback_def str_of_def)

lemma bad_format_line_groups:
  "\<exists>m. re_search request_re None
          (py '':pgn-to-board -board_format foo -- :pgn 1. e4'' @ [10]) = Some m \<and>
       group m 1 = py '':pgn-to-board'' \<and> group m 2 = py '' -board_format foo'' \<and>
       group m 3 = py '':pgn'' \<and> group m 4 = py ''1. e4''"
  by (simp add: request_re_def is_space_def group_def py_def)

lemma toy_foo_options:
  "request_options toy (py '' -board_format foo'') =
     Inr \<lparr>pixels = 400, board_format = py ''foo'', engine = py ''stockfish'', depth = 20\<rparr>"
  by (simp add: request_options_def toy_defs py_def)

text \<open>
  Claim C3 says that a \<open>:pgn-to-board\<close> request whose board format is neither \<open>svg\<close> nor
  \<open>text\<close> gets a diagnostic on the standard error and no reply line.  The callback prints the
  diagnostic and returns nothing, and \<open>listen\<close> prints what the callback returned: the line
  \<open>None\<close> goes to the standard output.  Here on the request
  \<^verbatim>\<open>:pgn-to-board -board_format foo -- :pgn 1. e4\<close>.
\<close>

theorem bad_board_format_prints_None:
  "listen_step toy (py '':pgn-to-board -board_format foo -- :pgn 1. e4'' @ [10]) start =
     (Continue,
      start\<lparr>stdout := [py ''None''],
            stderr := [py ''Bad pgn-mode -board_format value: foo'']\<rparr>)"
proof -
  let ?line = "py '':pgn-to-board -board_format foo -- :pgn 1. e4'' @ [10]"
  let ?a = "\<lparr>pixels = 400, board_format = py ''foo'', engine = py ''stockfish'', depth = 20\<rparr>"
  obtain m where m: "re_search request_re None ?line = Some m"
    "group m 1 = py '':pgn-to-board''" "group m 2 = py '' -board_format foo''"
    "group m 3 = py '':pgn''" "group m 4 = py ''1. e4''"
    using bad_format_line_groups by blast
  have ne: "?line \<noteq> [10]"
    by (simp add: py_def)
  have cb: "map_of CALLBACKS (group m 1) = Some PgnToBoard"
    using m(2) by (simp add: CALLBACKS_def py_def)
  have opts: "request_options toy (group m 2) = Inr ?a"
    using m(3) toy_foo_options by simp
  have build: "build_game_board toy (group m 4) start =
      (Inr ([py ''e4''], [py ''e4''], Some (py ''e4'')), start)"
    using m(5) toy_build_e4 by simp
  have f1: "board_format ?a \<noteq> py ''svg''" and f2: "board_format ?a \<noteq> py ''text''"
    by (simp_all add: py_def)
  have msg: "py ''Bad pgn-mode -board_format value: '' @ board_format ?a =
      py ''Bad pgn-mode -board_format value: foo''"
    by (simp add: py_def)
  show ?thesis
    unfolding bad_board_format_reply [OF m(1) ne cb opts m(4) build f1 f2] msg
    by (simp add: print_out_def print_err_def start_def)
qed

section \<open>The same \<open>:pgn-to-fen\<close> request twice\<close>

lemma fen_reply_in_every_state:
  assumes "re_search request_re None line = Some m"
      and "line \<noteq> [10]"
      and "map_of CALLBACKS (group m 1) = Some PgnToFen"
      and "request_options L (group m 2) = Inr a"
      and "group m 3 = py '':pgn''"
      and "construct L (group m 4) = Inr (game, board, last_move)"
  shows "listen_step L line s =
           (Continue,
            print_out (py '':fen '' @ board_fen L board)
              (log_err (fst (read_game L (pgn_text (group m 4)))) s))"
  using listen_step_dispatch [OF assms(1-5), of s] assms(6)
  by (simp add: build_game_board_construct pgn_to_fen_callback_def str_of_def)

lemma fen_request_twice:
  assumes "re_search request_re None line = Some m"
      and "line \<noteq> [10]"
      and "map_of CALLBACKS (group m 1) = Some PgnToFen"
      and "request_options L (group m 2) = Inr a"
      and "group m 3 = py '':pgn''"
      and "construct L (group m 4) = Inr (game, board, last_move)"
  shows "\<exists>s2. listen L [line, line] s = (None, s2) \<and>
           stdout s2 = stdout s @ [py '':fen '' @ board_fen L board, py '':fen '' @ board_fen L board]"
  by (simp add: fen_reply_in_every_state [OF assms] listen_step_eof cleanup_frame print_out_def
                log_err_frame log_err_def)

text \<open>
  Claim C8 says that every well-formed \<open>:pgn-to-fen\<close> line, processed twice in succession,
  yields two identical reply lines.  For a line whose payload holds a game with a board that
  is so, in every state (\<open>fen_request_twice\<close>).  The line of claim C10 is well formed too, and
  sent twice it yields no reply at all: the first one raises and the loop ends.
\<close>

theorem blank_fen_request_twice:
  "listen toy [py '':pgn-to-fen -- :pgn '' @ [92, 110, 10],
               py '':pgn-to-fen -- :pgn '' @ [92, 110, 10]] start =
     (Some AttributeError, start)"
  by (simp add: blank_line_step(2) [OF toy_empty_options toy_blank_game] log_err_Nil)

section \<open>The reply of \<open>:pgn-to-mainline\<close>\<close>

lemma rmatch_token_end:
  "rmatch [Star (\<lambda>c. \<not> is_space c), Eos] prev s =
     (if list_all (\<lambda>c. \<not> is_space c) s then Some [[]] else None)"
  by (induction s arbitrary: prev) auto

lemma rmatch_spaces_token_end:
  "rmatch [Star is_space, One (\<lambda>c. \<not> is_space c), Star (\<lambda>c. \<not> is_space c), Eos] prev s =
     (if dropWhile is_space s \<noteq> [] \<and> list_all (\<lambda>c. \<not> is_space c) (dropWhile is_space s)
      then Some [[]] else None)"
  by (induction s arbitrary: prev) (auto simp: rmatch_token_end)

lemma rmatch_result_re:
  "rmatch result_re prev s =
     (case s of
        [] \<Rightarrow> None
      | c # s' \<Rightarrow>
          if is_space c \<and> dropWhile is_space s' \<noteq> [] \<and>
             list_all (\<lambda>c. \<not> is_space c) (dropWhile is_space s')
          then Some [[]] else None)"
  by (cases s) (simp_all add: result_re_def rmatch_spaces_token_end)

lemma re_sub_result_Nil: "re_sub result_re repl prev [] = []"
  by (subst re_sub.simps) (simp add: rmatch_result_re)

lemma strip_at_token:
  assumes "ws \<noteq> []" "list_all is_space ws" "tok \<noteq> []" "list_all (\<lambda>c. \<not> is_space c) tok"
      and "pre = [] \<or> \<not> is_space (last pre)"
  shows "re_sub result_re (\<lambda>m. []) prev (pre @ ws @ tok) = pre"
  using assms(5)
proof (induction pre arbitrary: prev)
  case Nil
  obtain w ws' where ws: "ws = w # ws'"
    using assms(1) by (cases ws) auto
  have dw: "dropWhile is_space (ws' @ tok) = tok"
    using assms(2,3,4) ws by (cases tok) (auto simp: dropWhile_append list_all_iff)
  have "\<exists>x\<in>set tok. \<not> is_space x"
    using assms(3,4) by (cases tok) auto
  then have "rmatch result_re prev (ws @ tok) = Some [[]]"
    using assms(2,3,4) ws dw by (auto simp: rmatch_result_re)
  then show ?case
    using ws by (subst re_sub.simps) (simp add: re_sub_result_Nil)
next
  case (Cons c pre)
  have none: "rmatch result_re prev ((c # pre) @ ws @ tok) = None"
  proof (cases "is_space c")
    case False
    then show ?thesis by (simp add: rmatch_result_re)
  next
    case True
    with Cons.prems have ne: "pre \<noteq> []" and lst: "\<not> is_space (last pre)"
      by (auto split: if_splits)
    then have ex: "\<exists>x\<in>set pre. \<not> is_space x"
      using last_in_set by blast
    from ex obtain x where "x \<in> set pre" "\<not> is_space x"
      by blast
    then have "dropWhile is_space (pre @ ws @ tok) = dropWhile is_space pre @ ws @ tok"
      by (rule dropWhile_append1)
    then have "hd ws \<in> set (dropWhile is_space (pre @ ws @ tok))"
      using assms(1) by simp
    moreover have "is_space (hd ws)"
      using assms(1,2) by (cases ws) auto
    ultimately have "\<not> list_all (\<lambda>c. \<not> is_space c) (dropWhile is_space (pre @ ws @ tok))"
      by (auto simp: list_all_iff)
    then show ?thesis by (simp add: rmatch_result_re)
  qed
  have "pre = [] \<or> \<not> is_space (last pre)"
    using Cons.prems by (auto split: if_splits)
  from Cons.IH [OF this] none show ?case
    by (subst re_sub.simps) simp
qed

lemma strip_no_space:
  "list_all (\<lambda>c. \<not> is_space c) s \<Longrightarrow> re_sub result_re (\<lambda>m. []) prev s = s"
proof (induction s arbitrary: prev)
  case Nil
  show ?case by (rule re_sub_result_Nil)
next
  case (Cons c s)
  from Cons.prems have c: "\<not> is_space c" and s: "list_all (\<lambda>c. \<not> is_space c) s"
    by simp_all
  have none: "rmatch result_re prev (c # s) = None"
    using c by (simp add: rmatch_result_re)
  have "re_sub result_re (\<lambda>m. []) prev (c # s) = c # re_sub result_re (\<lambda>m. []) (Some c) s"
    by (subst re_sub.simps) (simp add: none)
  with Cons.IH [OF s] show ?case by simp
qed

lemma dropWhile_last_space:
  assumes "is_space (last t)" and "dropWhile is_space t \<noteq> []"
  shows "\<not> list_all (\<lambda>c. \<not> is_space c) (dropWhile is_space t)"
proof -
  have "last (takeWhile is_space t @ dropWhile is_space t) = last (dropWhile is_space t)"
    using assms(2) by (simp only: last_append if_False)
  then have "last t = last (dropWhile is_space t)"
    by (simp only: takeWhile_dropWhile_id)
  moreover have "last (dropWhile is_space t) \<in> set (dropWhile is_space t)"
    using assms(2) by (rule last_in_set)
  ultimately have "\<exists>x\<in>set (dropWhile is_space t). is_space x"
    using assms(1) by metis
  then show ?thesis
    by (simp add: list_all_iff)
qed

lemma strip_trailing_space:
  "s \<noteq> [] \<Longrightarrow> is_space (last s) \<Longrightarrow> re_sub result_re (\<lambda>m. []) prev s = s"
proof (induction s arbitrary: prev)
  case Nil
  then show ?case by simp
next
  case (Cons c s)
  show ?case
  proof (cases "s = []")
    case True
    have "rmatch result_re prev [c] = None"
      by (simp add: rmatch_result_re)
    then have "re_sub result_re (\<lambda>m. []) prev [c] = c # re_sub result_re (\<lambda>m. []) (Some c) []"
      by (subst re_sub.simps) simp
    with True show ?thesis
      by (simp add: re_sub_result_Nil)
  next
    case False
    with Cons.prems have sp: "is_space (last s)" by simp
    have none: "rmatch result_re prev (c # s) = None"
    proof (cases "dropWhile is_space s = []")
      case True
      then show ?thesis by (simp only: rmatch_result_re list.case) simp
    next
      case False
      from dropWhile_last_space [OF sp False] show ?thesis
        by (simp only: rmatch_result_re list.case) simp
    qed
    have "re_sub result_re (\<lambda>m. []) prev (c # s) = c # re_sub result_re (\<lambda>m. []) (Some c) s"
      by (subst re_sub.simps) (simp add: none)
    with Cons.IH [OF False sp] show ?thesis by simp
  qed
qed

lemma re_sub_result_re: "re_sub result_re (\<lambda>m. []) prev s = strip_result s"
proof -
  let ?ns = "\<lambda>c. \<not> is_space c"
  let ?tok = "takeWhile ?ns (rev s)"
  let ?bef = "dropWhile ?ns (rev s)"
  have split: "rev s = ?tok @ ?bef" by simp
  show ?thesis
  proof (cases "?tok \<noteq> [] \<and> ?bef \<noteq> []")
    case True
    let ?sp = "takeWhile is_space ?bef"
    let ?pre = "dropWhile is_space ?bef"
    have "is_space (hd ?bef)"
      using True hd_dropWhile [of ?ns "rev s"] by auto
    then have sp: "?sp \<noteq> []"
      using True by (cases ?bef) auto
    have s: "s = rev ?pre @ rev ?sp @ rev ?tok"
    proof -
      have "rev s = ?tok @ ?sp @ ?pre" by simp
      then have "rev (rev s) = rev (?tok @ ?sp @ ?pre)" by (rule arg_cong)
      then show ?thesis by (simp only: rev_rev_ident rev_append append_assoc)
    qed
    have pre: "rev ?pre = [] \<or> \<not> is_space (last (rev ?pre))"
      using hd_dropWhile [of is_space ?bef] by (auto simp: last_rev)
    have a: "list_all is_space (rev ?sp)"
      by (auto simp: list_all_iff dest: set_takeWhileD)
    have b: "list_all ?ns (rev ?tok)"
      by (auto simp: list_all_iff dest: set_takeWhileD)
    have "re_sub result_re (\<lambda>m. []) prev (rev ?pre @ rev ?sp @ rev ?tok) = rev ?pre"
      using sp True a b pre by (intro strip_at_token) auto
    with s have "re_sub result_re (\<lambda>m. []) prev s = rev ?pre" by simp
    with True show ?thesis by (simp add: strip_result_def Let_def)
  next
    case False
    then consider "?tok = []" | "?bef = []" by blast
    then have "re_sub result_re (\<lambda>m. []) prev s = s"
    proof cases
      case 1
      show ?thesis
      proof (cases "s = []")
        case True
        then show ?thesis by (simp add: re_sub_result_Nil)
      next
        case False
        with 1 have "is_space (hd (rev s))"
          by (cases "rev s") (auto split: if_splits)
        with False have "is_space (last s)" by (simp add: hd_rev)
        with False show ?thesis by (rule strip_trailing_space)
      qed
    next
      case 2
      then have "list_all ?ns (rev s)"
        by (simp add: list_all_iff dropWhile_eq_Nil_conv)
      then have "list_all ?ns s" by (simp add: list_all_iff)
      then show ?thesis by (rule strip_no_space)
    qed
    with False show ?thesis by (auto simp: strip_result_def Let_def)
  qed
qed

lemma mainline_callback_reply:
  "pgn_to_mainline_callback L game board last_move a s =
     (Inr (Some (py '':san '' @ strip_result (game_accept L game))), s)"
  by (simp add: pgn_to_mainline_callback_def Let_def re_sub_result_re)

text \<open>
  Claim C6, amended.  For every line that passes the checks of \<open>listen\<close>, whose command is
  \<open>:pgn-to-mainline\<close> and for which the game and its board are constructed, the reply is
  \<open>:san\<close>, a space, and the exported move text cleaned by \<open>strip_result\<close>: the last token
  and the white space before it are removed when there is white space before the last token,
  and the text is left as it is otherwise, as for the bare result marker of a game without
  moves.  The reply is printed in the state \<open>s0\<close> that the construction leaves.
\<close>

theorem mainline_reply:
  assumes "re_search request_re None line = Some m"
      and "line \<noteq> [10]"
      and "map_of CALLBACKS (group m 1) = Some PgnToMainline"
      and "request_options L (group m 2) = Inr a"
      and "group m 3 = py '':pgn''"
      and "build_game_board L (group m 4) s = (Inr (game, board, last_move), s0)"
  shows "listen_step L line s =
           (Continue, print_out (py '':san '' @ strip_result (game_accept L game)) s0)"
  using listen_step_built [OF assms]
  by (simp add: mainline_callback_reply str_of_def)

lemma mainline_line_groups:
  "\<exists>m. re_search request_re None (py '':pgn-to-mainline -- :pgn 1. e4'' @ [10]) = Some m \<and>
       group m 1 = py '':pgn-to-mainline'' \<and> group m 2 = [] \<and> group m 3 = py '':pgn'' \<and>
       group m 4 = py ''1. e4''"
  by (simp add: request_re_def is_space_def group_def py_def)

lemma strip_result_e4: "strip_result (py ''1. e4 *'') = py ''1. e4''"
  by (simp add: strip_result_def is_space_def py_def)

theorem mainline_reply_witness:
  "strip_result (py ''1. e4 *'') = py ''1. e4'' \<and>
   listen_step toy (py '':pgn-to-mainline -- :pgn 1. e4'' @ [10]) start =
     (Continue, start\<lparr>stdout := [py '':san 1. e4'']\<rparr>)"
proof -
  let ?line = "py '':pgn-to-mainline -- :pgn 1. e4'' @ [10]"
  obtain m where m: "re_search request_re None ?line = Some m"
    "group m 1 = py '':pgn-to-mainline''" "group m 2 = []" "group m 3 = py '':pgn''"
    "group m 4 = py ''1. e4''"
    using mainline_line_groups by blast
  have ne: "?line \<noteq> [10]"
    by (simp add: py_def)
  have cb: "map_of CALLBACKS (group m 1) = Some PgnToMainline"
    using m(2) by (simp add: CALLBACKS_def py_def)
  have opts: "request_options toy (group m 2) =
      Inr \<lparr>pixels = 400, board_format = py ''svg'', engine = py ''stockfish'', depth = 20\<rparr>"
    using m(3) toy_default_options by simp
  have build: "build_game_board toy (group m 4) start =
      (Inr ([py ''e4''], [py ''e4''], Some (py ''e4'')), start)"
    using m(5) toy_build_e4 by simp
  have exported: "game_accept toy [py ''e4''] = py ''1. e4 *''"
    by (simp add: toy_defs py_def)
  have san: "py '':san '' @ py ''1. e4'' = py '':san 1. e4''"
    by (simp add: py_def)
  have "listen_step toy ?line start = (Continue, start\<lparr>stdout := [py '':san 1. e4'']\<rparr>)"
    unfolding mainline_reply [OF m(1) ne cb opts m(4) build] exported strip_result_e4 san
    by (simp add: print_out_def start_def)
  with strip_result_e4 show ?thesis by simp
qed

text \<open>
  Claim C6, as stated, fails for a game without moves: the exported text is the bare result
  marker, nothing is removed from it, and the reply is \<^verbatim>\<open>:san *\<close>, not \<open>:san\<close> followed by
  the text without its last token.
\<close>

theorem mainline_reply_counterexample:
  "game_accept toy [] = py ''*'' \<and>
   re_sub result_re (\<lambda>m. []) None (py ''*'') = py ''*'' \<and>
   strip_last_token (py ''*'') = [] \<and>
   listen_step toy (py '':pgn-to-mainline -- :pgn *'' @ [10]) start =
     (Continue, start\<lparr>stdout := [py '':san *'']\<rparr>)"
proof -
  have 1: "game_accept toy [] = py ''*''"
    by (simp add: toy_defs)
  have 2: "re_sub result_re (\<lambda>m. []) None (py ''*'') = py ''*''"
    by (simp add: re_sub_result_re strip_result_def is_space_def py_def)
  have 3: "strip_last_token (py ''*'') = []"
    by (simp add: strip_last_token_def is_space_def py_def)
  have 4: "listen_step toy (py '':pgn-to-mainline -- :pgn *'' @ [10]) start =
     (Continue, start\<lparr>stdout := [py '':san *'']\<rparr>)"
    by (simp add: toy_defs step_defs)
  from 1 2 3 4 show ?thesis by simp
qed

section \<open>One reply line for each request\<close>


lemma py_prefix: "take (length p) (p @ x) = p"
  by simp








text \<open>
  The theorem says nothing of the standard error, and the turn may write there: on a payload
  with an illegal move the library reports the move while it parses, and the reply line is
  printed all the same.
\<close>

lemma illegal_move_reply:
  "listen_step toy (py '':pgn-to-fen -- :pgn 1. e5'' @ [10]) start =
     (Continue,
      start\<lparr>stdout := [py '':fen rnbqkbnr/pppppppp/8/8/8/8/PPPPPPPP/RNBQKBNR w KQkq - 0 1''],
            stderr := [py ''illegal san: e5'']\<rparr>)"
  by (simp add: toy_defs step_defs)





section \<open>The engine pool: a handle for a path\<close>

lemma spawn_Inr:
  assumes "spawn L p s = (Inr u, s1)"
  shows "\<exists>h w. popen_uci L p (world s) = (Some h, w) \<and>
               s1 = s\<lparr>ENGINES := AList.update p h (ENGINES s), world := w,
                      calls := calls s @ [Popen p (Some h)]\<rparr>"
  using assms by (auto simp: spawn_def split: prod.splits option.splits)

lemma spawn_Inl:
  assumes "spawn L p s = (Inl e, s1)"
  shows "ENGINES s1 = ENGINES s"
  using assms by (auto simp: spawn_def split: prod.splits option.splits)

lemma known_live_probed: "known_live h (cs @ [Ping h True])"
  by (simp add: known_live_def)

lemma not_known_live_spawned: "\<not> known_live h (cs @ [Popen p (Some h)])"
  by (simp add: known_live_def)

text \<open>
  Claim C2, amended.  When \<open>instantiate_engine\<close> returns a handle for a path, its calls to
  the engine library were, in order: a spawn at the path if the pool had no handle for it, the
  handle \<open>h0\<close> of that spawn being stored; a probe of \<open>h0\<close>, the stored handle, fresh or
  not; and, if the probe failed, a second spawn at the same path, whose handle replaces the
  stored one.  The handle returned is the one stored in the pool for the path, and the other
  entries of the pool are as before.  If the probe succeeded the handle returned is \<open>h0\<close> and
  it is known to be live; if the probe failed the handle returned is the replacement, and it
  has not been probed.
\<close>

theorem instantiate_engine_returns:
  assumes "instantiate_engine L path s = (Inr h, s')"
  shows "\<exists>h0 ok.
           calls s' =
             calls s @ (if map_of (ENGINES s) path = None then [Popen path (Some h0)] else []) @
             [Ping h0 ok] @ (if ok then [] else [Popen path (Some h)]) \<and>
           (map_of (ENGINES s) path \<noteq> None \<longrightarrow> map_of (ENGINES s) path = Some h0) \<and>
           (ok \<longrightarrow> h = h0 \<and> known_live h (calls s')) \<and>
           (\<not> ok \<longrightarrow> \<not> known_live h (calls s')) \<and>
           map_of (ENGINES s') path = Some h \<and>
           (\<forall>p. p \<noteq> path \<longrightarrow> map_of (ENGINES s') p = map_of (ENGINES s) p)"
proof -
  define s1 where "s1 = snd (if map_of (ENGINES s) path = None then spawn L path s else (Inr (), s))"
  have first: "(if map_of (ENGINES s) path = None then spawn L path s else (Inr (), s)) = (Inr (), s1)"
    using assms unfolding s1_def instantiate_engine_def
    by (cases "if map_of (ENGINES s) path = None then spawn L path s else (Inr (), s)")
       (auto split: sum.splits)
  obtain h0 where h0: "map_of (ENGINES s1) path = Some h0"
    and c1: "calls s1 = calls s @ (if map_of (ENGINES s) path = None then [Popen path (Some h0)] else [])"
    and old: "map_of (ENGINES s) path \<noteq> None \<longrightarrow> map_of (ENGINES s) path = Some h0"
    and other1: "\<forall>p. p \<noteq> path \<longrightarrow> map_of (ENGINES s1) p = map_of (ENGINES s) p"
  proof (cases "map_of (ENGINES s) path = None")
    case True
    with first have "spawn L path s = (Inr (), s1)" by simp
    from spawn_Inr [OF this] obtain h1 w where
      "s1 = s\<lparr>ENGINES := AList.update path h1 (ENGINES s), world := w,
              calls := calls s @ [Popen path (Some h1)]\<rparr>"
      by blast
    with True that [of h1] show ?thesis
      by (simp add: update_conv')
  next
    case False
    with first have "s1 = s" by simp
    with False that show ?thesis by auto
  qed
  obtain ok w where ping: "engine_ping L h0 (world s1) = (ok, w)"
    by (cases "engine_ping L h0 (world s1)") auto
  have item: "engines_item s1 path = Inr h0"
    using h0 by (simp add: engines_item_def)
  show ?thesis
  proof (cases ok)
    case True
    let ?s2 = "s1\<lparr>world := w, calls := calls s1 @ [Ping h0 True]\<rparr>"
    have "instantiate_engine L path s = (engines_item ?s2 path, ?s2)"
      unfolding instantiate_engine_def first using item ping True by (simp add: Let_def)
    moreover have "engines_item ?s2 path = Inr h0"
      using h0 by (simp add: engines_item_def)
    ultimately have "h = h0" and "s' = ?s2"
      using assms by simp_all
    with True c1 old other1 h0 known_live_probed [of h0 "calls s1"] show ?thesis
      by (intro exI [of _ h0] exI [of _ True]) simp
  next
    case False
    let ?s2 = "s1\<lparr>world := w, calls := calls s1 @ [Ping h0 False]\<rparr>"
    have eq: "instantiate_engine L path s =
        (case spawn L path ?s2 of
           (Inl e, s3) \<Rightarrow> (Inl e, s3)
         | (Inr u, s3) \<Rightarrow> (engines_item s3 path, s3))"
      unfolding instantiate_engine_def first using item ping False by simp
    obtain r3 s3 where sp3: "spawn L path ?s2 = (r3, s3)"
      by (cases "spawn L path ?s2") auto
    have sp: "spawn L path ?s2 = (Inr (), s3)" and it: "engines_item s3 path = Inr h"
      and s': "s' = s3"
      using assms eq sp3 by (cases r3; simp)+
    from spawn_Inr [OF sp] obtain h2 w2 where
      s3: "s3 = ?s2\<lparr>ENGINES := AList.update path h2 (ENGINES ?s2), world := w2,
                     calls := calls ?s2 @ [Popen path (Some h2)]\<rparr>"
      by blast
    with it have h2: "h2 = h"
      by (simp add: engines_item_def update_conv')
    have calls: "calls s' = calls s1 @ [Ping h0 False] @ [Popen path (Some h)]"
      using s3 s' h2 by simp
    have pool: "map_of (ENGINES s') path = Some h"
      "\<forall>p. p \<noteq> path \<longrightarrow> map_of (ENGINES s') p = map_of (ENGINES s) p"
      using s3 s' h2 other1 by (simp_all add: update_conv')
    have "\<not> known_live h (calls s')"
      using not_known_live_spawned [of h "calls s1 @ [Ping h0 False]" path] calls by simp
    with calls pool False c1 old show ?thesis
      by (intro exI [of _ h0] exI [of _ False]) simp
  qed
qed


lemma toy_respawn:
  "instantiate_engine toy (py ''stockfish'') stalled =
     (Inr 1,
      stalled\<lparr>ENGINES := [(py ''stockfish'', 1)],
              world := \<lparr>next_handle = 2, stopped = {0}\<rparr>,
              calls := [Popen (py ''stockfish'') (Some 0), Ping 0 True, Analyse 0 True,
                        Ping 0 False, Popen (py ''stockfish'') (Some 1)]\<rparr>)"
  by (simp add: instantiate_engine_def spawn_def engines_item_def stalled_def toy_defs py_def)

theorem instantiate_engine_returns_witness:
  "\<exists>h0 ok.
     [Popen (py ''stockfish'') (Some 0), Ping 0 True, Analyse 0 True,
      Ping 0 False, Popen (py ''stockfish'') (Some 1)] =
       calls stalled @
       (if map_of (ENGINES stalled) (py ''stockfish'') = None
        then [Popen (py ''stockfish'') (Some h0)] else []) @
       [Ping h0 ok] @ (if ok then [] else [Popen (py ''stockfish'') (Some (1::nat))]) \<and>
     map_of (ENGINES stalled) (py ''stockfish'') = Some h0 \<and> \<not> ok"
proof -
  from instantiate_engine_returns [OF toy_respawn] obtain h0 ok where
    *: "[Popen (py ''stockfish'') (Some 0), Ping 0 True, Analyse 0 True,
      Ping 0 False, Popen (py ''stockfish'') (Some 1)] =
       calls stalled @
       (if map_of (ENGINES stalled) (py ''stockfish'') = None
        then [Popen (py ''stockfish'') (Some h0)] else []) @
       [Ping h0 ok] @ (if ok then [] else [Popen (py ''stockfish'') (Some (1::nat))])"
    and **: "map_of (ENGINES stalled) (py ''stockfish'') \<noteq> None \<longrightarrow>
       map_of (ENGINES stalled) (py ''stockfish'') = Some h0"
    by auto
  have "map_of (ENGINES stalled) (py ''stockfish'') = Some 0"
    by (simp add: stalled_def)
  with ** have h0: "map_of (ENGINES stalled) (py ''stockfish'') = Some h0" by simp
  with * have "\<not> ok"
    by (auto simp: stalled_def split: if_splits)
  with * h0 show ?thesis by blast
qed

text \<open>
  Claim C2, as stated, fails when the probe fails: the handle returned is the replacement,
  which is stored in the pool, and no probe of it has been made.
\<close>

theorem instantiate_engine_counterexample:
  "fst (instantiate_engine toy (py ''stockfish'') stalled) = Inr 1 \<and>
   map_of (ENGINES (snd (instantiate_engine toy (py ''stockfish'') stalled))) (py ''stockfish'') =
     Some 1 \<and>
   calls (snd (instantiate_engine toy (py ''stockfish'') stalled)) =
     [Popen (py ''stockfish'') (Some 0), Ping 0 True, Analyse 0 True,
      Ping 0 False, Popen (py ''stockfish'') (Some 1)] \<and>
   \<not> known_live 1 (calls (snd (instantiate_engine toy (py ''stockfish'') stalled)))"
  by (simp add: toy_respawn known_live_def)

section \<open>The keys of the engine pool\<close>

lemma spawn_keys:
  assumes "spawn L p s = (r, s1)"
  shows "fst ` set (ENGINES s) \<subseteq> fst ` set (ENGINES s1)"
proof (cases "popen_uci L p (world s)")
  case (Pair r0 w)
  show ?thesis
  proof (cases r0)
    case None
    with assms Pair have "ENGINES s1 = ENGINES s"
      by (auto simp: spawn_def)
    then show ?thesis by simp
  next
    case (Some h)
    with assms Pair have "ENGINES s1 = AList.update p h (ENGINES s)"
      by (auto simp: spawn_def)
    then show ?thesis
      by (simp add: dom_update subset_insertI)
  qed
qed

lemma instantiate_engine_keys:
  assumes "instantiate_engine L p s = (r, s')"
  shows "fst ` set (ENGINES s) \<subseteq> fst ` set (ENGINES s')"
proof -
  obtain r1 s1 where first:
    "(if map_of (ENGINES s) p = None then spawn L p s else (Inr (), s)) = (r1, s1)"
    by (cases "if map_of (ENGINES s) p = None then spawn L p s else (Inr (), s)") auto
  have k1: "fst ` set (ENGINES s) \<subseteq> fst ` set (ENGINES s1)"
    using first spawn_keys [of L p s r1 s1] by (auto split: if_splits)
  show ?thesis
  proof (cases r1)
    case (Inl e)
    with assms first have "s' = s1"
      unfolding instantiate_engine_def by simp
    with k1 show ?thesis by simp
  next
    case (Inr u)
    show ?thesis
    proof (cases "engines_item s1 p")
      case (Inl e)
      with assms first Inr have "s' = s1"
        unfolding instantiate_engine_def by simp
      with k1 show ?thesis by simp
    next
      case h: (Inr h)
      obtain ok w where ping: "engine_ping L h (world s1) = (ok, w)"
        by (cases "engine_ping L h (world s1)") auto
      show ?thesis
      proof (cases ok)
        case True
        with assms first Inr h ping
        have "s' = s1\<lparr>world := w, calls := calls s1 @ [Ping h True]\<rparr>"
          unfolding instantiate_engine_def by (simp add: Let_def)
        with k1 show ?thesis by simp
      next
        case False
        let ?s2 = "s1\<lparr>world := w, calls := calls s1 @ [Ping h False]\<rparr>"
        obtain r3 s3 where sp: "spawn L p ?s2 = (r3, s3)"
          by (cases "spawn L p ?s2") auto
        with assms first Inr h ping False have "s' = s3"
          unfolding instantiate_engine_def by (cases r3) simp_all
        with spawn_keys [OF sp] k1 show ?thesis by auto
      qed
    qed
  qed
qed

lemma run_callback_frame:
  assumes "run_callback cb L game board last_move a s = (r, s1)"
  shows "hooks s1 = hooks s \<and> fst ` set (ENGINES s) \<subseteq> fst ` set (ENGINES s1)"
proof (cases cb)
  case PgnToFen
  with assms show ?thesis by (auto simp: pgn_to_fen_callback_def)
next
  case PgnToBoard
  with assms show ?thesis
    by (auto simp: pgn_to_board_callback_def print_err_def split: if_splits)
next
  case PgnToMainline
  with assms show ?thesis by (auto simp: pgn_to_mainline_callback_def Let_def)
next
  case PgnToScore
  obtain r1 s2 where ie: "instantiate_engine L (engine a) s = (r1, s2)"
    by (cases "instantiate_engine L (engine a) s") auto
  note k = instantiate_engine_keys [OF ie] and o = instantiate_engine_output [OF ie]
  show ?thesis
  proof (cases r1)
    case (Inl e)
    with assms PgnToScore ie have "s1 = s2"
      by (simp add: pgn_to_score_callback_def)
    with k o show ?thesis by simp
  next
    case (Inr h)
    obtain r2 w where an: "engine_analyse L h board (depth a) (world s2) = (r2, w)"
      by (cases "engine_analyse L h board (depth a) (world s2)") auto
    with assms PgnToScore ie Inr have "ENGINES s1 = ENGINES s2 \<and> hooks s1 = hooks s2"
      by (cases r2) (auto simp: pgn_to_score_callback_def)
    with k o show ?thesis by simp
  qed
qed

lemma listen_step_frame:
  "hooks (snd (listen_step L line s)) = hooks s \<and>
   fst ` set (ENGINES s) \<subseteq> fst ` set (ENGINES (snd (listen_step L line s)))"
proof (cases "well_formed L line")
  case True
  then obtain m cb a where m: "re_search request_re None line = Some m" "line \<noteq> [10]"
    "map_of CALLBACKS (group m 1) = Some cb" "request_options L (group m 2) = Inr a"
    "group m 3 = py '':pgn''"
    unfolding well_formed_iff by blast
  note step = listen_step_dispatch [OF m, of s]
  obtain b s0 where bd: "build_game_board L (group m 4) s = (b, s0)"
    by (cases "build_game_board L (group m 4) s") auto
  note fr0 = build_game_board_frame(1,5) [OF bd]
  show ?thesis
  proof (cases b)
    case (Inl e)
    with step bd fr0 show ?thesis by simp
  next
    case (Inr gbl)
    obtain game board last_move where gbl: "gbl = (game, board, last_move)"
      by (cases gbl) auto
    obtain r s1 where cb: "run_callback cb L game board last_move a s0 = (r, s1)"
      by (cases "run_callback cb L game board last_move a s0") auto
    from run_callback_frame [OF cb] fr0 step bd Inr gbl cb show ?thesis
      by (cases r) (simp_all add: print_out_def)
  qed
next
  case False
  then show ?thesis
    by (auto simp: well_formed_def listen_step_def Let_def print_err_def cleanup_frame
             split: option.splits sum.splits prod.splits)
qed

lemma listen_frame:
  "hooks (snd (listen L lines s)) = hooks s \<and>
   fst ` set (ENGINES s) \<subseteq> fst ` set (ENGINES (snd (listen L lines s)))"
proof (induction lines arbitrary: s)
  case Nil
  show ?case
    by (simp add: listen_step_eof cleanup_frame)
next
  case (Cons l lines)
  obtain f s1 where st: "listen_step L l s = (f, s1)"
    by (cases "listen_step L l s") auto
  from listen_step_frame [of L l s] st
  have fr: "hooks s1 = hooks s" "fst ` set (ENGINES s) \<subseteq> fst ` set (ENGINES s1)"
    by simp_all
  show ?case
  proof (cases f)
    case Continue
    with st fr Cons.IH [of s1] show ?thesis by auto
  next
    case Break
    with st fr show ?thesis by simp
  next
    case (Raise e)
    with st fr show ?thesis by simp
  qed
qed


lemma run_hooks_frame:
  "hooks (fold (run_hook L) hs s) = hooks s \<and> ENGINES (fold (run_hook L) hs s) = ENGINES s"
proof (induction hs arbitrary: s)
  case Nil
  show ?case by simp
next
  case (Cons h hs)
  have "run_hook L h s = cleanup L s"
    by (cases h) simp
  with Cons.IH [of "cleanup L s"] show ?case
    by (simp add: cleanup_frame)
qed

lemma main_frame:
  "fst ` set (ENGINES s) \<subseteq> fst ` set (ENGINES (snd (main L argv lines s)))"
proof (cases "length argv > 1 \<and> (argv ! 1 = py ''-version'' \<or> argv ! 1 = py ''--version'')")
  case True
  then show ?thesis
    by (simp add: main_def at_exit_def run_hooks_frame print_out_def)
next
  case False
  obtain r s1 where li: "listen L lines (atexit_register Cleanup s) = (r, s1)"
    by (cases "listen L lines (atexit_register Cleanup s)") auto
  with False have "main L argv lines s = (r, at_exit L s1)"
    by (auto simp: main_def)
  moreover have "ENGINES (at_exit L s1) = ENGINES s1"
    by (simp add: at_exit_def run_hooks_frame)
  moreover have "fst ` set (ENGINES s) \<subseteq> fst ` set (ENGINES s1)"
    using listen_frame [of L lines "atexit_register Cleanup s"] li
    by (simp add: atexit_register_def)
  ultimately show ?thesis by simp
qed

text \<open>
  Claim C7.  No operation of the server removes a key of the engine pool: the keys before
  \<open>instantiate_engine\<close>, before one turn of the loop, before the whole loop and before the
  whole run of the program are keys afterwards, whatever the request and whether or not an
  exception ends the operation.  A restart replaces the value of a key that is there.  The
  shutdown leaves the pool as it is.
\<close>

theorem pool_keys_never_removed:
  "fst ` set (ENGINES s) \<subseteq> fst ` set (ENGINES (snd (instantiate_engine L p s))) \<and>
   fst ` set (ENGINES s) \<subseteq> fst ` set (ENGINES (snd (listen_step L line s))) \<and>
   fst ` set (ENGINES s) \<subseteq> fst ` set (ENGINES (snd (listen L lines s))) \<and>
   ENGINES (cleanup L s) = ENGINES s \<and>
   fst ` set (ENGINES s) \<subseteq> fst ` set (ENGINES (snd (main L argv lines s)))"
proof -
  have 1: "fst ` set (ENGINES s) \<subseteq> fst ` set (ENGINES (snd (instantiate_engine L p s)))"
    using instantiate_engine_keys [of L p s] by (cases "instantiate_engine L p s") simp
  from 1 listen_step_frame [of L line s] listen_frame [of L lines s] cleanup_frame(1) [of L s]
    main_frame [of s L argv lines]
  show ?thesis by blast
qed

lemma toy_second_engine:
  "instantiate_engine toy (py ''gnuchess'') stalled =
     (Inr 1,
      stalled\<lparr>ENGINES := [(py ''stockfish'', 0), (py ''gnuchess'', 1)],
              world := \<lparr>next_handle = 2, stopped = {0}\<rparr>,
              calls := [Popen (py ''stockfish'') (Some 0), Ping 0 True, Analyse 0 True,
                        Popen (py ''gnuchess'') (Some 1), Ping 1 True]\<rparr>)"
  by (simp add: instantiate_engine_def spawn_def engines_item_def stalled_def toy_defs py_def)

theorem pool_keys_never_removed_witness:
  "map fst (ENGINES stalled) = [py ''stockfish''] \<and>
   map fst (ENGINES (snd (instantiate_engine toy (py ''gnuchess'') stalled))) =
     [py ''stockfish'', py ''gnuchess''] \<and>
   map fst (ENGINES (snd (instantiate_engine toy (py ''stockfish'') stalled))) =
     [py ''stockfish''] \<and>
   fst ` set (ENGINES stalled) \<subseteq>
     fst ` set (ENGINES (snd (instantiate_engine toy (py ''gnuchess'') stalled))) \<and>
   fst ` set (ENGINES stalled) \<subseteq>
     fst ` set (ENGINES (snd (main toy [] [py '':pgn-to-score -- :pgn 1. e4'' @ [10]] stalled)))"
proof -
  have 1: "map fst (ENGINES stalled) = [py ''stockfish'']"
    by (simp add: stalled_def)
  have 2: "map fst (ENGINES (snd (instantiate_engine toy (py ''gnuchess'') stalled))) =
     [py ''stockfish'', py ''gnuchess'']"
    by (simp add: toy_second_engine)
  have 3: "map fst (ENGINES (snd (instantiate_engine toy (py ''stockfish'') stalled))) =
     [py ''stockfish'']"
    by (simp add: toy_respawn)
  from 1 2 3
    pool_keys_never_removed [of stalled toy "py ''gnuchess''" "[]"
      "[py '':pgn-to-score -- :pgn 1. e4'' @ [10]]" "[]"]
  show ?thesis by simp
qed

section \<open>The shutdown\<close>

















section \<open>The separator of a request\<close>

text \<open>
  What a match of the request pattern says about the matched text: each item of the pattern
  accounts for a piece of the input, and the pieces follow one another.
\<close>

lemma rmatch_Mark:
  assumes "rmatch (Mark # r) prev s = Some m"
  obtains m' where "m = s # m'" and "rmatch r prev s = Some m'"
  using assms by auto

lemma rmatch_One:
  assumes "rmatch (One p # r) prev s = Some m"
  obtains c s' where "s = c # s'" and "p c" and "rmatch r (Some c) s' = Some m"
  using assms by (cases s) (auto split: if_splits)

lemma rmatch_Star_ex:
  "rmatch (Star p # r) prev s = Some m \<Longrightarrow>
     \<exists>ws s' prev'. s = ws @ s' \<and> list_all p ws \<and> rmatch r prev' s' = Some m"
proof (induction s arbitrary: prev)
  case Nil
  then show ?case by auto
next
  case (Cons c s)
  show ?case
  proof (cases "p c \<and> rmatch (Star p # r) (Some c) s \<noteq> None")
    case True
    with Cons.prems have "rmatch (Star p # r) (Some c) s = Some m"
      by auto
    from Cons.IH [OF this] obtain ws s' prev' where
      "s = ws @ s'" "list_all p ws" "rmatch r prev' s' = Some m"
      by blast
    with True have "c # s = (c # ws) @ s' \<and> list_all p (c # ws) \<and> rmatch r prev' s' = Some m"
      by simp
    then show ?thesis by blast
  next
    case False
    with Cons.prems have "rmatch r prev (c # s) = Some m"
      by (auto split: if_splits option.splits)
    then have "c # s = [] @ (c # s) \<and> list_all p [] \<and> rmatch r prev (c # s) = Some m"
      by simp
    then show ?thesis by blast
  qed
qed

lemma rmatch_Lazy_ex:
  "rmatch (Lazy p # r) prev s = Some m \<Longrightarrow>
     \<exists>ws s' prev'. s = ws @ s' \<and> list_all p ws \<and> rmatch r prev' s' = Some m"
proof (induction s arbitrary: prev)
  case Nil
  then show ?case by auto
next
  case (Cons c s)
  show ?case
  proof (cases "rmatch r prev (c # s)")
    case (Some m')
    with Cons.prems have "rmatch r prev (c # s) = Some m"
      by simp
    then have "c # s = [] @ (c # s) \<and> list_all p [] \<and> rmatch r prev (c # s) = Some m"
      by simp
    then show ?thesis by blast
  next
    case None
    with Cons.prems have pc: "p c" and "rmatch (Lazy p # r) (Some c) s = Some m"
      by (auto split: if_splits)
    from Cons.IH [OF this(2)] obtain ws s' prev' where
      "s = ws @ s'" "list_all p ws" "rmatch r prev' s' = Some m"
      by blast
    with pc have "c # s = (c # ws) @ s' \<and> list_all p (c # ws) \<and> rmatch r prev' s' = Some m"
      by simp
    then show ?thesis by blast
  qed
qed

lemma rmatch_Star:
  assumes "rmatch (Star p # r) prev s = Some m"
  obtains ws s' prev' where "s = ws @ s'" and "list_all p ws" and "rmatch r prev' s' = Some m"
proof -
  from rmatch_Star_ex [OF assms] obtain ws s' prev' where
    "s = ws @ s'" "list_all p ws" "rmatch r prev' s' = Some m"
    by blast
  then show thesis by (rule that)
qed

lemma rmatch_Lazy:
  assumes "rmatch (Lazy p # r) prev s = Some m"
  obtains ws s' prev' where "s = ws @ s'" and "list_all p ws" and "rmatch r prev' s' = Some m"
proof -
  from rmatch_Lazy_ex [OF assms] obtain ws s' prev' where
    "s = ws @ s'" "list_all p ws" "rmatch r prev' s' = Some m"
    by blast
  then show thesis by (rule that)
qed

lemma rmatch_Plus:
  assumes "rmatch (One p # Star p # r) prev s = Some m"
  obtains ws s' prev' where "s = ws @ s'" and "ws \<noteq> []" and "list_all p ws"
    and "rmatch r prev' s' = Some m"
proof -
  from assms obtain c t where s: "s = c # t" and c: "p c"
    and t: "rmatch (Star p # r) (Some c) t = Some m"
    by (rule rmatch_One)
  from t obtain ws s' prev' where tw: "t = ws @ s'" and ws: "list_all p ws"
    and r: "rmatch r prev' s' = Some m"
    by (rule rmatch_Star)
  have 1: "s = (c # ws) @ s'"
    by (simp add: s tw)
  have 2: "c # ws \<noteq> []"
    by simp
  have 3: "list_all p (c # ws)"
    by (simp add: c ws)
  from 1 2 3 r show thesis
    by (rule that)
qed

lemma re_search_match:
  "re_search r prev s = Some m \<Longrightarrow> \<exists>pre s' prev'. s = pre @ s' \<and> rmatch r prev' s' = Some m"
proof (induction s arbitrary: prev)
  case Nil
  then have 1: "rmatch r prev [] = Some m"
    by simp
  have 2: "[] = [] @ ([] :: pystr)"
    by simp
  from 2 1 show ?case
    by blast
next
  case (Cons c s)
  show ?case
  proof (cases "rmatch r prev (c # s)")
    case (Some m')
    then have "re_search r prev (c # s) = Some m'"
      by simp
    with Cons.prems have "m' = m"
      by simp
    with Some have 1: "rmatch r prev (c # s) = Some m"
      by simp
    have 2: "c # s = [] @ (c # s)"
      by simp
    from 2 1 show ?thesis
      by blast
  next
    case None
    then have "re_search r prev (c # s) = re_search r (Some c) s"
      by simp
    with Cons.prems have "re_search r (Some c) s = Some m"
      by simp
    from Cons.IH [OF this] obtain pre s' prev' where
      a: "s = pre @ s'" and b: "rmatch r prev' s' = Some m"
      by (elim exE conjE)
    have "c # s = (c # pre) @ s'"
      by (simp add: a)
    with b show ?thesis
      by blast
  qed
qed

lemma request_match_shape:
  assumes "rmatch request_re prev s = Some m"
  shows "\<exists>ws1 ws2 rest.
           s = group m 1 @ group m 2 @ ws1 @ [45, 45] @ ws2 @ group m 3 @ rest \<and>
           ws1 \<noteq> [] \<and> list_all is_space ws1 \<and> ws2 \<noteq> [] \<and> list_all is_space ws2"
proof -
  let ?ns = "\<lambda>c. \<not> is_space c"
  let ?r4 = "[Mark, One ?ns, Star (\<lambda>c. c \<noteq> 10), Mark, One (\<lambda>c. c = 10)]"
  let ?r3 = "Mark # One (\<lambda>c. c = 58) # One ?ns # Star ?ns # Mark # One is_space # Star is_space # ?r4"
  let ?r2 = "Mark # Lazy (\<lambda>c. c \<noteq> 10) # Mark # One is_space # Star is_space #
             One (\<lambda>c. c = 45) # One (\<lambda>c. c = 45) # One is_space # Star is_space # ?r3"
  from assms have "rmatch (Mark # One (\<lambda>c. c = 58) # One ?ns # Star ?ns # Mark # ?r2) prev s = Some m"
    by (simp only: request_re_def)
  then obtain m1 where m: "m = s # m1"
    and 1: "rmatch (One (\<lambda>c. c = 58) # One ?ns # Star ?ns # Mark # ?r2) prev s = Some m1"
    by (rule rmatch_Mark)
  from 1 obtain c1 t1 where s: "s = c1 # t1"
    and 2: "rmatch (One ?ns # Star ?ns # Mark # ?r2) (Some c1) t1 = Some m1"
    by (rule rmatch_One)
  from 2 obtain g1 t3 p3 where t1: "t1 = g1 @ t3"
    and 3: "rmatch (Mark # ?r2) p3 t3 = Some m1"
    by (rule rmatch_Plus)
  from 3 obtain m2 where m1: "m1 = t3 # m2"
    and 4: "rmatch ?r2 p3 t3 = Some m2"
    by (rule rmatch_Mark)
  from 4 obtain m3 where m2: "m2 = t3 # m3"
    and 5: "rmatch (Lazy (\<lambda>c. c \<noteq> 10) # Mark # One is_space # Star is_space #
             One (\<lambda>c. c = 45) # One (\<lambda>c. c = 45) # One is_space # Star is_space # ?r3) p3 t3 = Some m3"
    by (rule rmatch_Mark)
  from 5 obtain g2 t4 p4 where t3: "t3 = g2 @ t4"
    and 6: "rmatch (Mark # One is_space # Star is_space #
             One (\<lambda>c. c = 45) # One (\<lambda>c. c = 45) # One is_space # Star is_space # ?r3) p4 t4 = Some m3"
    by (rule rmatch_Lazy)
  from 6 obtain m4 where m3: "m3 = t4 # m4"
    and 7: "rmatch (One is_space # Star is_space #
             One (\<lambda>c. c = 45) # One (\<lambda>c. c = 45) # One is_space # Star is_space # ?r3) p4 t4 = Some m4"
    by (rule rmatch_Mark)
  from 7 obtain ws1 t5 p5 where t4: "t4 = ws1 @ t5" and ws1: "ws1 \<noteq> []" "list_all is_space ws1"
    and 8: "rmatch (One (\<lambda>c. c = 45) # One (\<lambda>c. c = 45) # One is_space # Star is_space # ?r3) p5 t5 = Some m4"
    by (rule rmatch_Plus)
  from 8 obtain d1 t5' where t5: "t5 = d1 # t5'" and d1: "d1 = 45"
    and 9: "rmatch (One (\<lambda>c. c = 45) # One is_space # Star is_space # ?r3) (Some d1) t5' = Some m4"
    by (rule rmatch_One)
  from 9 obtain d2 t6 where t5': "t5' = d2 # t6" and d2: "d2 = 45"
    and 10: "rmatch (One is_space # Star is_space # ?r3) (Some d2) t6 = Some m4"
    by (rule rmatch_One)
  from 10 obtain ws2 t7 p7 where t6: "t6 = ws2 @ t7" and ws2: "ws2 \<noteq> []" "list_all is_space ws2"
    and 11: "rmatch ?r3 p7 t7 = Some m4"
    by (rule rmatch_Plus)
  from 11 obtain m5 where m4: "m4 = t7 # m5"
    and 12: "rmatch (One (\<lambda>c. c = 58) # One ?ns # Star ?ns # Mark # One is_space # Star is_space # ?r4) p7 t7 = Some m5"
    by (rule rmatch_Mark)
  from 12 obtain c3 t7' where t7: "t7 = c3 # t7'"
    and 13: "rmatch (One ?ns # Star ?ns # Mark # One is_space # Star is_space # ?r4) (Some c3) t7' = Some m5"
    by (rule rmatch_One)
  from 13 obtain g3 t8 p8 where t7': "t7' = g3 @ t8"
    and 14: "rmatch (Mark # One is_space # Star is_space # ?r4) p8 t8 = Some m5"
    by (rule rmatch_Plus)
  from 14 obtain m6 where m5: "m5 = t8 # m6"
    by (rule rmatch_Mark)
  have mm: "m = s # t3 # t3 # t4 # t7 # t8 # m6"
    by (simp add: m m1 m2 m3 m4 m5)
  have G1: "group m 1 = c1 # g1"
    unfolding mm s t1 by (simp add: group_def)
  have G2: "group m 2 = g2"
    unfolding mm t3 by (simp add: group_def)
  have G3: "group m 3 = c3 # g3"
    unfolding mm t7 t7' by (simp add: group_def)
  have "s = group m 1 @ group m 2 @ ws1 @ [45, 45] @ ws2 @ group m 3 @ t8"
    unfolding G1 G2 G3 by (simp add: s t1 t3 t4 t5 t5' d1 d2 t6 t7 t7')
  with ws1 ws2 show ?thesis
    by blast
qed

lemma request_search_shape:
  assumes "re_search request_re prev line = Some m"
  shows "\<exists>pre ws1 ws2 rest.
           line = pre @ group m 1 @ group m 2 @ ws1 @ py ''--'' @ ws2 @ group m 3 @ rest \<and>
           ws1 \<noteq> [] \<and> list_all is_space ws1 \<and> ws2 \<noteq> [] \<and> list_all is_space ws2"
proof -
  from re_search_match [OF assms] obtain pre s' prev' where
    l: "line = pre @ s'" and r: "rmatch request_re prev' s' = Some m"
    by blast
  from request_match_shape [OF r] obtain ws1 ws2 rest where
    "s' = group m 1 @ group m 2 @ ws1 @ [45, 45] @ ws2 @ group m 3 @ rest"
    "ws1 \<noteq> []" "list_all is_space ws1" "ws2 \<noteq> []" "list_all is_space ws2"
    by blast
  moreover have "py ''--'' = [45, 45]"
    by (simp add: py_def)
  ultimately have "line = pre @ group m 1 @ group m 2 @ ws1 @ py ''--'' @ ws2 @ group m 3 @ rest \<and>
           ws1 \<noteq> [] \<and> list_all is_space ws1 \<and> ws2 \<noteq> [] \<and> list_all is_space ws2"
    using l by simp
  then show ?thesis by blast
qed

text \<open>
  Claim C9, amended.  A line is accepted as a well-formed request only if, in the match of the
  request pattern, the options (group 2) and the payload type (group 3) are separated by a
  double dash with a non-empty run of white space on each side: \<^verbatim>\<open>\s+--\s+\<close>.  One space on
  each side is one such separator; any other white space, and any number of it, is accepted
  as well.
\<close>

theorem separator_whitespace_runs:
  assumes "well_formed L line"
  shows "\<exists>m pre ws1 ws2 rest.
           re_search request_re None line = Some m \<and>
           line = pre @ group m 1 @ group m 2 @ ws1 @ py ''--'' @ ws2 @ group m 3 @ rest \<and>
           ws1 \<noteq> [] \<and> list_all is_space ws1 \<and> ws2 \<noteq> [] \<and> list_all is_space ws2"
proof -
  from assms obtain m where m: "re_search request_re None line = Some m"
    unfolding well_formed_iff by blast
  from request_search_shape [OF m] obtain pre ws1 ws2 rest where
    "line = pre @ group m 1 @ group m 2 @ ws1 @ py ''--'' @ ws2 @ group m 3 @ rest"
    "ws1 \<noteq> []" "list_all is_space ws1" "ws2 \<noteq> []" "list_all is_space ws2"
    by (elim exE conjE)
  with m show ?thesis
    by blast
qed

lemma fen_line_groups:
  "\<exists>m. re_search request_re None (py '':pgn-to-fen -- :pgn 1. e4'' @ [10]) = Some m \<and>
       group m 1 = py '':pgn-to-fen'' \<and> group m 2 = [] \<and> group m 3 = py '':pgn'' \<and>
       group m 4 = py ''1. e4''"
  by (simp add: request_re_def is_space_def group_def py_def)

theorem separator_whitespace_runs_witness:
  "well_formed toy (py '':pgn-to-fen -- :pgn 1. e4'' @ [10]) \<and>
   (\<exists>m pre ws1 ws2 rest.
      re_search request_re None (py '':pgn-to-fen -- :pgn 1. e4'' @ [10]) = Some m \<and>
      py '':pgn-to-fen -- :pgn 1. e4'' @ [10] =
        pre @ group m 1 @ group m 2 @ ws1 @ py ''--'' @ ws2 @ group m 3 @ rest \<and>
      ws1 \<noteq> [] \<and> list_all is_space ws1 \<and> ws2 \<noteq> [] \<and> list_all is_space ws2)"
proof -
  let ?line = "py '':pgn-to-fen -- :pgn 1. e4'' @ [10]"
  obtain m where m: "re_search request_re None ?line = Some m"
    "group m 1 = py '':pgn-to-fen''" "group m 2 = []" "group m 3 = py '':pgn''"
    using fen_line_groups by blast
  have ne: "?line \<noteq> [10]"
    by (simp add: py_def)
  have cb: "map_of CALLBACKS (group m 1) = Some PgnToFen"
    using m(2) by (simp add: CALLBACKS_def py_def)
  have opts: "request_options toy (group m 2) =
      Inr \<lparr>pixels = 400, board_format = py ''svg'', engine = py ''stockfish'', depth = 20\<rparr>"
    using m(3) toy_default_options by simp
  have wf: "well_formed toy ?line"
    unfolding well_formed_iff using m(1,4) ne cb opts by blast
  show ?thesis
    by (rule conjI [OF wf separator_whitespace_runs [OF wf]])
qed

lemma tab_line_groups:
  "\<exists>m. re_search request_re None
          (py '':pgn-to-fen'' @ [9] @ py ''--'' @ [9] @ py '':pgn 1. e4'' @ [10]) = Some m \<and>
       group m 1 = py '':pgn-to-fen'' \<and> group m 2 = [] \<and> group m 3 = py '':pgn'' \<and>
       group m 4 = py ''1. e4''"
  by (simp add: request_re_def is_space_def group_def py_def)

text \<open>
  Claim C9, as stated, fails on a request with a tab on each side of the double dash, where
  the claim has a space: between the options and the payload type stand the four characters
  tab, dash, dash, tab, the line is well formed, and the server prints its reply.
\<close>

theorem separator_counterexample:
  "(\<exists>m. re_search request_re None
           (py '':pgn-to-fen'' @ [9] @ py ''--'' @ [9] @ py '':pgn 1. e4'' @ [10]) = Some m \<and>
        py '':pgn-to-fen'' @ [9] @ py ''--'' @ [9] @ py '':pgn 1. e4'' @ [10] =
          group m 1 @ group m 2 @ [9] @ py ''--'' @ [9] @ group m 3 @ py '' 1. e4'' @ [10]) \<and>
   well_formed toy (py '':pgn-to-fen'' @ [9] @ py ''--'' @ [9] @ py '':pgn 1. e4'' @ [10]) \<and>
   listen_step toy (py '':pgn-to-fen'' @ [9] @ py ''--'' @ [9] @ py '':pgn 1. e4'' @ [10]) start =
     (Continue,
      start\<lparr>stdout := [py '':fen rnbqkbnr/pppppppp/8/8/4P3/8/PPPP1PPP/RNBQKBNR b KQkq - 0 1'']\<rparr>)"
proof -
  let ?line = "py '':pgn-to-fen'' @ [9] @ py ''--'' @ [9] @ py '':pgn 1. e4'' @ [10]"
  obtain m where m: "re_search request_re None ?line = Some m"
    "group m 1 = py '':pgn-to-fen''" "group m 2 = []" "group m 3 = py '':pgn''"
    "group m 4 = py ''1. e4''"
    using tab_line_groups by blast
  have ne: "?line \<noteq> [10]"
    by (simp add: py_def)
  have cb: "map_of CALLBACKS (group m 1) = Some PgnToFen"
    using m(2) by (simp add: CALLBACKS_def py_def)
  have opts: "request_options toy (group m 2) =
      Inr \<lparr>pixels = 400, board_format = py ''svg'', engine = py ''stockfish'', depth = 20\<rparr>"
    using m(3) toy_default_options by simp
  have build: "build_game_board toy (group m 4) start =
      (Inr ([py ''e4''], [py ''e4''], Some (py ''e4'')), start)"
    using m(5) toy_build_e4 by simp
  have fen: "py '':fen '' @ board_fen toy [py ''e4''] =
      py '':fen rnbqkbnr/pppppppp/8/8/4P3/8/PPPP1PPP/RNBQKBNR b KQkq - 0 1''"
    by (simp add: toy_defs py_def)
  have wf: "well_formed toy ?line"
    unfolding well_formed_iff using m(1,4) ne cb opts by blast
  have parts: "?line = group m 1 @ group m 2 @ [9] @ py ''--'' @ [9] @ group m 3 @ py '' 1. e4'' @ [10]"
    unfolding m(2,3,4) by (simp add: py_def)
  have step: "listen_step toy ?line start =
     (Continue,
      start\<lparr>stdout := [py '':fen rnbqkbnr/pppppppp/8/8/4P3/8/PPPP1PPP/RNBQKBNR b KQkq - 0 1'']\<rparr>)"
    unfolding listen_step_built [OF m(1) ne cb opts m(4) build] using fen
    by (simp add: pgn_to_fen_callback_def print_out_def str_of_def start_def)
  from m(1) parts have "\<exists>m. re_search request_re None ?line = Some m \<and>
      ?line = group m 1 @ group m 2 @ [9] @ py ''--'' @ [9] @ group m 3 @ py '' 1. e4'' @ [10]"
    by blast
  with wf step show ?thesis
    by blast
qed

end
